theory Spec2Isabelle
  imports Main "HOL-Library.AList"
begin

section \<open>Strings and the path functions the engine calls\<close>

text \<open>
  Strings are \<^typ>\<open>string\<close>. The separator of the edge key, U+2192, is the list of
  its three UTF-8 bytes; every other literal of the engine is ASCII.
\<close>

definition arrow :: string where
  "arrow = [CHR 0xE2, CHR 0x86, CHR 0x92]"

fun startsWith :: "string \<Rightarrow> string \<Rightarrow> bool" where
  "startsWith s [] = True"
| "startsWith [] (c # cs) = False"
| "startsWith (x # xs) (c # cs) = (x = c \<and> startsWith xs cs)"

definition endsWith :: "string \<Rightarrow> string \<Rightarrow> bool" where
  "endsWith s t = startsWith (rev s) (rev t)"

fun includesStr :: "string \<Rightarrow> string \<Rightarrow> bool" where
  "includesStr [] t = (t = [])"
| "includesStr (x # xs) t = (startsWith (x # xs) t \<or> includesStr xs t)"

text \<open>\<^verbatim>\<open>s.replace(/\\/g, "/")\<close>\<close>

definition normSlashes :: "string \<Rightarrow> string" where
  "normSlashes s = map (\<lambda>c. if c = CHR 0x5C then CHR ''/'' else c) s"

text \<open>ASCII lower-casing, as \<^verbatim>\<open>toLowerCase\<close> acts on the extensions compared here.\<close>

definition toLowerCase :: "string \<Rightarrow> string" where
  "toLowerCase s =
     map (\<lambda>c. let n = (of_char c :: nat) in if 65 \<le> n \<and> n \<le> 90 then char_of (n + 32) else c) s"

text \<open>
  \<^verbatim>\<open>path.dirname\<close> (POSIX): the scan runs from the end down to index 1, skips
  trailing slashes, and cuts at the first slash after a non-slash character.
\<close>

definition dirname :: "string \<Rightarrow> string" where
  "dirname p =
     (if p = [] then ''.''
      else
        let hasRoot = (hd p = CHR ''/'');
            r = dropWhile (\<lambda>c. c \<noteq> CHR ''/'') (dropWhile (\<lambda>c. c = CHR ''/'') (rev (tl p)))
        in if r = [] then (if hasRoot then ''/'' else ''.'')
           else if hasRoot \<and> length r = 1 then ''//''
           else hd p # rev (tl r))"

text \<open>\<^verbatim>\<open>path.basename\<close> (POSIX, no suffix argument).\<close>

definition basename :: "string \<Rightarrow> string" where
  "basename p = rev (takeWhile (\<lambda>c. c \<noteq> CHR ''/'') (dropWhile (\<lambda>c. c = CHR ''/'') (rev p)))"

text \<open>
  \<^verbatim>\<open>path.extname\<close> (POSIX): the part of the base name from its last dot, empty
  when there is no dot, when the dot opens the base name, or when the base name is
  \<^verbatim>\<open>..\<close>.
\<close>

definition extname :: "string \<Rightarrow> string" where
  "extname p =
     (let b = basename p in
      if CHR ''.'' \<notin> set b then []
      else
        let e = rev (takeWhile (\<lambda>c. c \<noteq> CHR ''.'') (rev b));
            pre = take (length b - length e - 1) b
        in if pre = [] \<or> b = ''..'' then [] else CHR ''.'' # e)"

text \<open>
  \<^verbatim>\<open>path.relative(from, to)\<close> for absolute POSIX paths, which is what the engine
  passes (the root handed to the constructor and the file paths of the parsed
  project): both paths are resolved to their segments, the common leading segments
  are dropped, and every segment left of \<open>from\<close> becomes \<^verbatim>\<open>..\<close>.
\<close>

fun splitOn :: "char \<Rightarrow> string \<Rightarrow> string list" where
  "splitOn d [] = [Nil]"
| "splitOn d (c # cs) =
     (if c = d then [] # splitOn d cs
      else (case splitOn d cs of [] \<Rightarrow> [c # Nil] | w # ws \<Rightarrow> (c # w) # ws))"

fun joinWith :: "string \<Rightarrow> string list \<Rightarrow> string" where
  "joinWith sep [] = []"
| "joinWith sep [x] = x"
| "joinWith sep (x # y # ys) = x @ sep @ joinWith sep (y # ys)"

fun resolveSegs :: "string list \<Rightarrow> string list \<Rightarrow> string list" where
  "resolveSegs acc [] = rev acc"
| "resolveSegs acc (s # ss) =
     (if s = [] \<or> s = ''.'' then resolveSegs acc ss
      else if s = ''..'' then resolveSegs (tl acc) ss
      else resolveSegs (s # acc) ss)"

fun dropCommon :: "string list \<Rightarrow> string list \<Rightarrow> string list \<times> string list" where
  "dropCommon (x # xs) (y # ys) = (if x = y then dropCommon xs ys else (x # xs, y # ys))"
| "dropCommon xs ys = (xs, ys)"

definition relative :: "string \<Rightarrow> string \<Rightarrow> string" where
  "relative fromPath toPath =
     (let f = resolveSegs [] (splitOn (CHR ''/'') fromPath);
          t = resolveSegs [] (splitOn (CHR ''/'') toPath)
      in case dropCommon f t of
           (f', t') \<Rightarrow> joinWith ''/'' (replicate (length f') ''..'' @ t'))"

text \<open>\<^verbatim>\<open>String.prototype.trim\<close> on ASCII white space.\<close>

definition isSpace :: "char \<Rightarrow> bool" where
  "isSpace c = (c \<in> set [CHR '' '', CHR 0x09, CHR 0x0A, CHR 0x0B, CHR 0x0C, CHR 0x0D])"

definition trim :: "string \<Rightarrow> string" where
  "trim s = rev (dropWhile isSpace (rev (dropWhile isSpace s)))"

text \<open>The decimal numeral a template literal prints for an index.\<close>

function showNat :: "nat \<Rightarrow> string" where
  "showNat n =
     (if n < 10 then [char_of (48 + n)] else showNat (n div 10) @ [char_of (48 + n mod 10)])"
  by pat_completeness auto
termination
  by (relation "measure (\<lambda>n. n)") auto

declare showNat.simps [simp del]

section \<open>The graph: \<^verbatim>\<open>types.ts\<close>\<close>

datatype NodeType = Folder | File | Function | Class | Component

record ProjectNode =
  nodeId :: string
  name :: string
  nodeType :: NodeType
  path :: string
  line :: "nat option"
  parentId :: "string option"
  content :: "string option"
  signature :: "string option"
  docComment :: "string option"

datatype RelationType = Imports | Calls | Extends | Renders | Contains

record ProjectEdge =
  fromId :: string
  toId :: string
  relation :: RelationType
  callCount :: "nat option"

record ProjectGraph =
  nodes :: "ProjectNode list"
  edges :: "ProjectEdge list"
  rootPath :: string

fun relationStr :: "RelationType \<Rightarrow> string" where
  "relationStr Imports = ''imports''"
| "relationStr Calls = ''calls''"
| "relationStr Extends = ''extends''"
| "relationStr Renders = ''renders''"
| "relationStr Contains = ''contains''"

section \<open>What the parser hands to the engine\<close>

text \<open>
  The engine reads the syntax tree through a handful of queries. A source file is
  the record of their answers: its absolute path, its text, for every import
  declaration the path of the file its module specifier resolves to (if any), its
  top-level function declarations, variable declarations and classes, and its call
  expressions in document order.
\<close>

record FunctionDecl =
  fnName :: "string option"
  fnLine :: nat
  fnText :: string
  fnDocs :: "string option list"

datatype InitKind = ArrowFunction | FunctionExpression | OtherInitializer

record VariableDecl =
  varName :: string
  varLine :: nat
  varInit :: "(InitKind \<times> string) option"

record MethodDecl =
  methodName :: string
  methodLine :: nat
  methodText :: string
  methodDocs :: "string option list"

record ClassDecl =
  clsName :: "string option"
  clsLine :: nat
  clsText :: string
  clsDocs :: "string option list"
  clsMethods :: "MethodDecl list"

text \<open>
  One node of the ancestor chain of a call expression, by its syntax kind, with
  what \<^verbatim>\<open>_findContainingFunctionId\<close> reads from it: the name of a function
  declaration; for a method declaration, the name of its parent when the parent is
  a class declaration (\<open>None\<close> when it is not, \<open>Some None\<close> for a class without a
  name) and the method's name; the name of a variable declaration.
\<close>

datatype Ancestor =
    FunctionDeclarationNode "string option"
  | MethodDeclarationNode "string option option" string
  | VariableDeclarationNode "string option"
  | OtherNode

datatype CalleeExpr = Identifier string | PropertyAccess string string | OtherExpr

text \<open>
  A call expression: its ancestor chain, itself first; the expression called; and
  what symbol resolution answers for that expression: \<open>None\<close> when there is no
  symbol or resolution throws, otherwise the symbol's name and the path of the
  source file of each of its declarations.
\<close>

record CallExpr =
  ancestors :: "Ancestor list"
  callee :: CalleeExpr
  symbolDecls :: "(string \<times> string list) option"

record SourceFile =
  getFilePath :: string
  getFullText :: string
  getImportTargets :: "string option list"
  getFunctions :: "FunctionDecl list"
  getVariableDeclarations :: "VariableDecl list"
  getClasses :: "ClassDecl list"
  getCallExpressions :: "CallExpr list"

section \<open>The engine: \<^verbatim>\<open>engine.ts\<close>\<close>

text \<open>
  A JavaScript \<^verbatim>\<open>Map\<close> keeps its keys in insertion order and \<^verbatim>\<open>set\<close> on a
  present key replaces the value where it stands: an association list under
  \<^const>\<open>AList.update\<close>. The name registry is only ever looked up, so it is a map.
\<close>

type_synonym NodesMap = "(string \<times> ProjectNode) list"
type_synonym EdgesMap = "(string \<times> ProjectEdge) list"

record AnalyzerState =
  nodesMap :: NodesMap
  edgesMap :: EdgesMap
  fnRegistry :: "string \<rightharpoonup> string"
  folderPaths :: "string list"

definition has :: "(string \<times> 'v) list \<Rightarrow> string \<Rightarrow> bool" where
  "has m k = (map_of m k \<noteq> None)"

definition edgeKey :: "string \<Rightarrow> string \<Rightarrow> RelationType \<Rightarrow> string" where
  "edgeKey f t r = f @ arrow @ t @ arrow @ relationStr r"

definition addEdge :: "string \<Rightarrow> string \<Rightarrow> RelationType \<Rightarrow> EdgesMap \<Rightarrow> EdgesMap" where
  "addEdge f t r em =
     (let key = edgeKey f t r in
      case map_of em key of
        Some e \<Rightarrow>
          if r = Calls
          then AList.update key
                 (e\<lparr>callCount :=
                      Some ((case callCount e of None \<Rightarrow> 1 | Some c \<Rightarrow> if c = 0 then 1 else c) + 1)\<rparr>)
                 em
          else em
      | None \<Rightarrow> AList.update key \<lparr>fromId = f, toId = t, relation = r, callCount = Some 1\<rparr> em)"

definition withEdge :: "string \<Rightarrow> string \<Rightarrow> RelationType \<Rightarrow> AnalyzerState \<Rightarrow> AnalyzerState" where
  "withEdge f t r s = s\<lparr>edgesMap := addEdge f t r (edgesMap s)\<rparr>"

definition setNode :: "ProjectNode \<Rightarrow> AnalyzerState \<Rightarrow> AnalyzerState" where
  "setNode n s = s\<lparr>nodesMap := AList.update (nodeId n) n (nodesMap s)\<rparr>"

definition setRegistry :: "string \<Rightarrow> string \<Rightarrow> AnalyzerState \<Rightarrow> AnalyzerState" where
  "setRegistry k v s = s\<lparr>fnRegistry := (fnRegistry s)(k \<mapsto> v)\<rparr>"

subsection \<open>The source set filter\<close>

definition BINARY_EXTENSIONS :: "string list" where
  "BINARY_EXTENSIONS =
     [''.png'', ''.jpg'', ''.jpeg'', ''.gif'', ''.webp'', ''.svg'', ''.ico'', ''.avif'',
      ''.mp4'', ''.webm'', ''.mov'', ''.avi'', ''.mkv'', ''.mp3'', ''.wav'', ''.ogg'',
      ''.woff'', ''.woff2'', ''.ttf'', ''.eot'', ''.otf'',
      ''.pdf'', ''.zip'', ''.tar'', ''.gz'', ''.7z'',
      ''.lock'', ''.bin'', ''.exe'', ''.dll'', ''.so'',
      ''.map'', ''.min.js'', ''.min.css'']"

definition ignoredPaths :: "string list" where
  "ignoredPaths =
     [''/node_modules/'', ''/dist/'', ''/build/'', ''/.next/'', ''/out/'', ''/coverage/'',
      ''/vendor/'', ''/.git/'']"

definition isRemoved :: "SourceFile \<Rightarrow> bool" where
  "isRemoved sf =
     (let p = normSlashes (getFilePath sf); ext = toLowerCase (extname p) in
      list_ex (\<lambda>ignored. includesStr p ignored) ignoredPaths \<or>
      ext \<in> set BINARY_EXTENSIONS \<or>
      endsWith p ''.min.js'' \<or> endsWith p ''.min.css'')"

definition relativePathOf :: "string \<Rightarrow> string \<Rightarrow> string" where
  "relativePathOf root p = normSlashes (relative root p)"

definition isSkipped :: "string \<Rightarrow> bool" where
  "isSkipped relativePath = (startsWith relativePath ''..'' \<or> includesStr relativePath ''node_modules'')"

subsection \<open>Pass 1: folders, files and the symbol registry\<close>

lemma dirname_nonempty:
  "p \<noteq> [] \<Longrightarrow>
   dirname p = (let r = dropWhile (\<lambda>c. c \<noteq> CHR ''/'') (dropWhile (\<lambda>c. c = CHR ''/'') (rev (tl p))) in
           if r = [] then (if hd p = CHR ''/'' then ''/'' else ''.'')
           else if hd p = CHR ''/'' \<and> length r = 1 then ''//''
           else hd p # rev (tl r))"
  unfolding dirname_def Let_def by (simp only: if_False)

lemma scan_short:
  assumes "dropWhile (\<lambda>c. c \<noteq> CHR ''/'') (dropWhile (\<lambda>c. c = CHR ''/'') xs) \<noteq> []"
  shows "length (dropWhile (\<lambda>c. c \<noteq> CHR ''/'') (dropWhile (\<lambda>c. c = CHR ''/'') xs)) < length xs"
proof -
  define y where "y = dropWhile (\<lambda>c. c = CHR ''/'') xs"
  have "dropWhile (\<lambda>c. c \<noteq> CHR ''/'') y \<noteq> []"
    using assms unfolding y_def .
  then have "y \<noteq> []" by (cases y) simp_all
  then have "hd y \<noteq> CHR ''/''"
    unfolding y_def using hd_dropWhile [of "\<lambda>c. c = CHR ''/''" xs] by blast
  with \<open>y \<noteq> []\<close> have "dropWhile (\<lambda>c. c \<noteq> CHR ''/'') y = dropWhile (\<lambda>c. c \<noteq> CHR ''/'') (tl y)"
    by (cases y) simp_all
  moreover have "length (dropWhile (\<lambda>c. c \<noteq> CHR ''/'') (tl y)) \<le> length (tl y)"
    by (rule length_dropWhile_le)
  moreover have "length y \<le> length xs"
    unfolding y_def by (rule length_dropWhile_le)
  ultimately show ?thesis
    unfolding y_def [symmetric] using \<open>y \<noteq> []\<close> by (cases y) simp_all
qed

lemma dirname_shrinks:
  "dirname p = ''.'' \<or> dirname p = ''/'' \<or> length (dirname p) < length p"
proof (cases "p = []")
  case True
  then show ?thesis by (simp add: dirname_def)
next
  case False
  define r where "r = dropWhile (\<lambda>c. c \<noteq> CHR ''/'') (dropWhile (\<lambda>c. c = CHR ''/'') (rev (tl p)))"
  have d: "dirname p = (if r = [] then (if hd p = CHR ''/'' then ''/'' else ''.'')
           else if hd p = CHR ''/'' \<and> length r = 1 then ''//''
           else hd p # rev (tl r))"
    using dirname_nonempty [OF False] unfolding Let_def r_def [symmetric] .
  show ?thesis
  proof (cases "r = []")
    case True
    then show ?thesis unfolding d by simp
  next
    case nonempty: False
    then have "length r < length (rev (tl p))"
      unfolding r_def by (rule scan_short)
    then have "length r + 2 \<le> length p" using False by (cases p) simp_all
    then have "length (dirname p) < length p"
      unfolding d using nonempty by (cases r) auto
    then show ?thesis by simp
  qed
qed

definition docCommentOf :: "string option list \<Rightarrow> string" where
  "docCommentOf docs =
     joinWith [CHR 0x0A]
       (concat (map (\<lambda>d. case d of None \<Rightarrow> [] | Some t \<Rightarrow> if t = [] then [] else [t]) docs))"

text \<open>The object literals the engine stores, one per kind of node.\<close>

definition folderNode :: "string \<Rightarrow> ProjectNode" where
  "folderNode currentDir =
     \<lparr>nodeId = ''folder:'' @ currentDir, name = basename currentDir, nodeType = Folder,
      path = currentDir, line = None, parentId = None, content = None, signature = None,
      docComment = None\<rparr>"

definition fileNode :: "string \<Rightarrow> SourceFile \<Rightarrow> ProjectNode" where
  "fileNode relativePath sf =
     (let parentDir = normSlashes (dirname relativePath) in
      \<lparr>nodeId = ''file:'' @ relativePath, name = basename (getFilePath sf), nodeType = File,
       path = relativePath, line = None,
       parentId = (if parentDir = ''.'' then None else Some (''folder:'' @ parentDir)),
       content = Some (take 8000 (getFullText sf)), signature = None, docComment = None\<rparr>)"

definition functionNode :: "string \<Rightarrow> string \<Rightarrow> string \<Rightarrow> FunctionDecl \<Rightarrow> ProjectNode" where
  "functionNode fileNodeId relativePath nm fn =
     \<lparr>nodeId = fileNodeId @ '':fn:'' @ nm, name = nm, nodeType = Function, path = relativePath,
      line = Some (fnLine fn), parentId = Some fileNodeId,
      content = Some (take 3000 (fnText fn)),
      signature = Some (trim (takeWhile (\<lambda>c. c \<noteq> CHR ''{'') (fnText fn))),
      docComment = Some (docCommentOf (fnDocs fn))\<rparr>"

definition variableNode :: "string \<Rightarrow> string \<Rightarrow> VariableDecl \<Rightarrow> string \<Rightarrow> ProjectNode" where
  "variableNode fileNodeId relativePath v initText =
     \<lparr>nodeId = fileNodeId @ '':fn:'' @ varName v, name = varName v, nodeType = Function,
      path = relativePath, line = Some (varLine v), parentId = Some fileNodeId,
      content = Some (take 3000 initText),
      signature =
        Some (''const '' @ varName v @ '' = '' @ takeWhile (\<lambda>c. c \<noteq> CHR 0x0A) initText),
      docComment = None\<rparr>"

definition classNode :: "string \<Rightarrow> string \<Rightarrow> string \<Rightarrow> ClassDecl \<Rightarrow> ProjectNode" where
  "classNode fileNodeId relativePath nm cls =
     \<lparr>nodeId = fileNodeId @ '':cls:'' @ nm, name = nm, nodeType = Class, path = relativePath,
      line = Some (clsLine cls), parentId = Some fileNodeId,
      content = Some (take 3000 (clsText cls)), signature = None,
      docComment = Some (docCommentOf (clsDocs cls))\<rparr>"

definition methodNode :: "string \<Rightarrow> string \<Rightarrow> MethodDecl \<Rightarrow> ProjectNode" where
  "methodNode clsId relativePath m =
     \<lparr>nodeId = clsId @ '':method:'' @ methodName m, name = methodName m, nodeType = Function,
      path = relativePath, line = Some (methodLine m), parentId = Some clsId,
      content = Some (take 3000 (methodText m)),
      signature = Some (trim (takeWhile (\<lambda>c. c \<noteq> CHR ''{'') (methodText m))),
      docComment = Some (docCommentOf (methodDocs m))\<rparr>"

lemmas node_defs =
  folderNode_def fileNode_def functionNode_def variableNode_def classNode_def methodNode_def

text \<open>The body of the loop of \<^verbatim>\<open>_addFolderNodes\<close> for one directory.\<close>

definition addFolder :: "string \<Rightarrow> AnalyzerState \<Rightarrow> AnalyzerState" where
  "addFolder currentDir s =
     (if currentDir \<notin> set (folderPaths s) then
        let s1 = setNode (folderNode currentDir) (s\<lparr>folderPaths := currentDir # folderPaths s\<rparr>);
            parentDir = normSlashes (dirname currentDir)
        in if parentDir \<noteq> ''.'' \<and> parentDir \<noteq> []
           then withEdge (''folder:'' @ parentDir) (''folder:'' @ currentDir) Contains s1
           else s1
      else s)"

function addFolderLoop :: "string \<Rightarrow> AnalyzerState \<Rightarrow> AnalyzerState" where
  "addFolderLoop currentDir s =
     (if currentDir \<noteq> ''.'' \<and> currentDir \<noteq> [] \<and> currentDir \<noteq> ''/''
      then addFolderLoop (normSlashes (dirname currentDir)) (addFolder currentDir s)
      else s)"
  by pat_completeness auto
termination
proof (relation "measure (\<lambda>(d, s). if d = ''.'' \<or> d = [] \<or> d = ''/'' then 0 else Suc (length d))")
  show "wf (measure (\<lambda>(d, s :: AnalyzerState). if d = ''.'' \<or> d = [] \<or> d = ''/'' then 0 else Suc (length d)))"
    by simp
next
  fix currentDir :: string and s :: AnalyzerState
  assume "currentDir \<noteq> ''.'' \<and> currentDir \<noteq> [] \<and> currentDir \<noteq> ''/''"
  then show "((normSlashes (dirname currentDir), addFolder currentDir s), currentDir, s)
      \<in> measure (\<lambda>(d, s). if d = ''.'' \<or> d = [] \<or> d = ''/'' then 0 else Suc (length d))"
    using dirname_shrinks [of currentDir] by (auto simp: normSlashes_def)
qed

declare addFolderLoop.simps [simp del]

definition addFolderNodes :: "string \<Rightarrow> AnalyzerState \<Rightarrow> AnalyzerState" where
  "addFolderNodes relativePath s = addFolderLoop (normSlashes (dirname relativePath)) s"

definition addFileNode :: "string \<Rightarrow> SourceFile \<Rightarrow> AnalyzerState \<Rightarrow> AnalyzerState" where
  "addFileNode relativePath sf s =
     (let fileNodeId = ''file:'' @ relativePath;
          parentDir = normSlashes (dirname relativePath);
          s1 = setNode (fileNode relativePath sf) s
      in if parentDir \<noteq> ''.'' then withEdge (''folder:'' @ parentDir) fileNodeId Contains s1
         else s1)"

definition addImportEdge :: "string \<Rightarrow> string \<Rightarrow> string option \<Rightarrow> AnalyzerState \<Rightarrow> AnalyzerState" where
  "addImportEdge root fileNodeId resolved s =
     (case resolved of
        None \<Rightarrow> s
      | Some p \<Rightarrow>
          let targetPath = relativePathOf root p in
          if \<not> includesStr targetPath ''node_modules''
          then withEdge fileNodeId (''file:'' @ targetPath) Imports s
          else s)"

text \<open>\<^verbatim>\<open>x.getName() || fallback\<close>: an absent or empty name takes the fallback.\<close>

definition nameOr :: "string option \<Rightarrow> string \<Rightarrow> string" where
  "nameOr n fallback = (case n of None \<Rightarrow> fallback | Some t \<Rightarrow> if t = [] then fallback else t)"

definition registerFunction ::
  "string \<Rightarrow> string \<Rightarrow> nat \<times> FunctionDecl \<Rightarrow> AnalyzerState \<Rightarrow> AnalyzerState" where
  "registerFunction fileNodeId relativePath p s =
     (case p of (idx, fn) \<Rightarrow>
        let nm = nameOr (fnName fn) (''anonymous_'' @ showNat idx);
            fnId = fileNodeId @ '':fn:'' @ nm
        in withEdge fileNodeId fnId Contains
             (setNode (functionNode fileNodeId relativePath nm fn) (setRegistry nm fnId s)))"

definition registerVariable ::
  "string \<Rightarrow> string \<Rightarrow> VariableDecl \<Rightarrow> AnalyzerState \<Rightarrow> AnalyzerState" where
  "registerVariable fileNodeId relativePath v s =
     (case varInit v of
        None \<Rightarrow> s
      | Some (kind, initText) \<Rightarrow>
          if kind = ArrowFunction \<or> kind = FunctionExpression then
            let nm = varName v; fnId = fileNodeId @ '':fn:'' @ nm in
            if \<not> has (nodesMap s) fnId then
              withEdge fileNodeId fnId Contains
                (setNode (variableNode fileNodeId relativePath v initText) (setRegistry nm fnId s))
            else s
          else s)"

definition registerMethod ::
  "string \<Rightarrow> string \<Rightarrow> string \<Rightarrow> MethodDecl \<Rightarrow> AnalyzerState \<Rightarrow> AnalyzerState" where
  "registerMethod clsId clsNm relativePath m s =
     (let methodId = clsId @ '':method:'' @ methodName m in
      withEdge clsId methodId Contains
        (setNode (methodNode clsId relativePath m)
           (setRegistry (clsNm @ ''.'' @ methodName m) methodId s)))"

definition registerClass ::
  "string \<Rightarrow> string \<Rightarrow> nat \<times> ClassDecl \<Rightarrow> AnalyzerState \<Rightarrow> AnalyzerState" where
  "registerClass fileNodeId relativePath p s =
     (case p of (idx, cls) \<Rightarrow>
        let nm = nameOr (clsName cls) (''AnonymousClass_'' @ showNat idx);
            clsId = fileNodeId @ '':cls:'' @ nm;
            s1 = withEdge fileNodeId clsId Contains
                   (setNode (classNode fileNodeId relativePath nm cls) (setRegistry nm clsId s))
        in fold (registerMethod clsId nm relativePath) (clsMethods cls) s1)"

definition pass1File :: "string \<Rightarrow> SourceFile \<Rightarrow> AnalyzerState \<Rightarrow> AnalyzerState" where
  "pass1File root sf s =
     (let relativePath = relativePathOf root (getFilePath sf) in
      if isSkipped relativePath then s
      else
        let fileNodeId = ''file:'' @ relativePath;
            s1 = addFolderNodes relativePath s;
            s2 = addFileNode relativePath sf s1;
            s3 = fold (addImportEdge root fileNodeId) (getImportTargets sf) s2;
            s4 = fold (registerFunction fileNodeId relativePath) (enumerate 0 (getFunctions sf)) s3;
            s5 = fold (registerVariable fileNodeId relativePath) (getVariableDeclarations sf) s4
        in fold (registerClass fileNodeId relativePath) (enumerate 0 (getClasses sf)) s5)"

subsection \<open>Pass 2: call edges\<close>

text \<open>
  What one step of the upward walk of \<^verbatim>\<open>_findContainingFunctionId\<close> returns at
  an ancestor, if anything. A class without a name prints as \<^verbatim>\<open>undefined\<close> in the
  id the walk builds.
\<close>

definition idAtAncestor :: "Ancestor \<Rightarrow> string \<Rightarrow> NodesMap \<Rightarrow> string option" where
  "idAtAncestor a fileNodeId nm =
     (case a of
        FunctionDeclarationNode n \<Rightarrow>
          (case n of
             None \<Rightarrow> None
           | Some t \<Rightarrow>
               if t \<noteq> [] \<and> has nm (fileNodeId @ '':fn:'' @ t) then Some (fileNodeId @ '':fn:'' @ t)
               else None)
      | MethodDeclarationNode parent m \<Rightarrow>
          (case parent of
             None \<Rightarrow> None
           | Some c \<Rightarrow>
               let methodId = fileNodeId @ '':cls:'' @ (case c of None \<Rightarrow> ''undefined'' | Some t \<Rightarrow> t)
                                @ '':method:'' @ m
               in if has nm methodId then Some methodId else None)
      | VariableDeclarationNode n \<Rightarrow>
          (case n of
             None \<Rightarrow> None
           | Some t \<Rightarrow>
               if t \<noteq> [] \<and> has nm (fileNodeId @ '':fn:'' @ t) then Some (fileNodeId @ '':fn:'' @ t)
               else None)
      | OtherNode \<Rightarrow> None)"

fun findContainingFunctionId :: "Ancestor list \<Rightarrow> string \<Rightarrow> NodesMap \<Rightarrow> string option" where
  "findContainingFunctionId [] fileNodeId nm = None"
| "findContainingFunctionId (a # up) fileNodeId nm =
     (case idAtAncestor a fileNodeId nm of
        Some i \<Rightarrow> Some i
      | None \<Rightarrow> findContainingFunctionId up fileNodeId nm)"

definition calledNameOf :: "(string \<rightharpoonup> string) \<Rightarrow> CalleeExpr \<Rightarrow> string option" where
  "calledNameOf reg e =
     (case e of
        Identifier t \<Rightarrow> Some t
      | PropertyAccess obj prop \<Rightarrow>
          Some (if reg (obj @ ''.'' @ prop) \<noteq> None then obj @ ''.'' @ prop else prop)
      | OtherExpr \<Rightarrow> None)"

text \<open>Tier 1: the registry entry of the called name, when it passes the three tests.\<close>

definition registryTarget :: "AnalyzerState \<Rightarrow> string \<Rightarrow> string \<Rightarrow> string option" where
  "registryTarget s calledName callerFnId =
     (case fnRegistry s calledName of
        None \<Rightarrow> None
      | Some targetId \<Rightarrow>
          if targetId \<noteq> [] \<and> targetId \<noteq> callerFnId \<and> has (nodesMap s) targetId
          then Some targetId else None)"

text \<open>Tier 2, the body of the loop over the declarations of the symbol.\<close>

definition traceDeclaration ::
  "string \<Rightarrow> string \<Rightarrow> string \<Rightarrow> string \<Rightarrow> AnalyzerState \<Rightarrow> AnalyzerState" where
  "traceDeclaration root callerFnId declName declPath s =
     (let targetRel = relativePathOf root declPath in
      if includesStr targetRel ''node_modules'' then s
      else
        let targetFileId = ''file:'' @ targetRel;
            candidates = [targetFileId @ '':fn:'' @ declName, targetFileId @ '':cls:'' @ declName]
        in case find (\<lambda>c. has (nodesMap s) c \<and> c \<noteq> callerFnId) candidates of
             Some c \<Rightarrow> withEdge callerFnId c Calls s
           | None \<Rightarrow> s)"

definition traceCall :: "string \<Rightarrow> string \<Rightarrow> CallExpr \<Rightarrow> AnalyzerState \<Rightarrow> AnalyzerState" where
  "traceCall root fileNodeId callExpr s =
     (case findContainingFunctionId (ancestors callExpr) fileNodeId (nodesMap s) of
        None \<Rightarrow> s
      | Some callerFnId \<Rightarrow>
          (case calledNameOf (fnRegistry s) (callee callExpr) of
             None \<Rightarrow> s
           | Some calledName \<Rightarrow>
               if calledName = [] then s
               else
                 (case registryTarget s calledName callerFnId of
                    Some targetId \<Rightarrow> withEdge callerFnId targetId Calls s
                  | None \<Rightarrow>
                      (case symbolDecls callExpr of
                         None \<Rightarrow> s
                       | Some (declName, declPaths) \<Rightarrow>
                           fold (traceDeclaration root callerFnId declName) declPaths s))))"

definition traceCallEdges :: "string \<Rightarrow> SourceFile \<Rightarrow> string \<Rightarrow> AnalyzerState \<Rightarrow> AnalyzerState" where
  "traceCallEdges root sf relativePath s =
     fold (traceCall root (''file:'' @ relativePath)) (getCallExpressions sf) s"

definition pass2File :: "string \<Rightarrow> SourceFile \<Rightarrow> AnalyzerState \<Rightarrow> AnalyzerState" where
  "pass2File root sf s =
     (let relativePath = relativePathOf root (getFilePath sf) in
      if isSkipped relativePath then s else traceCallEdges root sf relativePath s)"

subsection \<open>\<^verbatim>\<open>analyze\<close>\<close>

definition initialState :: AnalyzerState where
  "initialState = \<lparr>nodesMap = [], edgesMap = [], fnRegistry = Map.empty, folderPaths = []\<rparr>"

definition pass1 :: "string \<Rightarrow> SourceFile list \<Rightarrow> AnalyzerState \<Rightarrow> AnalyzerState" where
  "pass1 root sourceFiles s = fold (pass1File root) sourceFiles s"

definition pass2 :: "string \<Rightarrow> SourceFile list \<Rightarrow> AnalyzerState \<Rightarrow> AnalyzerState" where
  "pass2 root sourceFiles s = fold (pass2File root) sourceFiles s"

definition assemble :: "string \<Rightarrow> AnalyzerState \<Rightarrow> ProjectGraph" where
  "assemble root s =
     (let ns = map snd (nodesMap s);
          nodeIds = set (map nodeId ns);
          validEdges = filter (\<lambda>e. fromId e \<in> nodeIds \<and> toId e \<in> nodeIds) (map snd (edgesMap s))
      in \<lparr>nodes = ns, edges = validEdges, rootPath = root\<rparr>)"

text \<open>
  \<open>projectFiles\<close> is what the four globs under the root added to the project; the
  registry and both maps start empty, as in a fresh engine.
\<close>

definition analyze :: "string \<Rightarrow> SourceFile list \<Rightarrow> ProjectGraph" where
  "analyze root projectFiles =
     (let sourceFiles = filter (\<lambda>sf. \<not> isRemoved sf) projectFiles in
      assemble root (pass2 root sourceFiles (pass1 root sourceFiles initialState)))"

section \<open>The request handler around the engine\<close>

text \<open>
  The part of the \<^verbatim>\<open>POST\<close> handler of the analysis route that runs the engine. What it
  writes to the response stream is a list of events. \<open>engineProgress\<close> are the progress
  notifications the engine sends through the same channel while it runs (it sends no
  other kind); \<open>persist\<close> is everything the handler does with a graph that has
  nodes: storing it, indexing it, and the events that go with it.
\<close>

datatype Event = Progress nat string | Error string | Done ProjectGraph

definition noSourceMessage :: string where
  "noSourceMessage = ''No source files found. Make sure the repo contains .ts/.tsx/.js/.jsx files.''"

definition afterAnalysis :: "ProjectGraph \<Rightarrow> (ProjectGraph \<Rightarrow> Event list) \<Rightarrow> Event list" where
  "afterAnalysis analysis persist =
     Progress 75
       (''Found '' @ showNat (length (nodes analysis)) @ '' nodes and '' @
        showNat (length (edges analysis)) @ '' edges. Saving to database...'') #
     (if length (nodes analysis) = 0 then [Error noSourceMessage] else persist analysis)"

definition handleAnalysis ::
  "string \<Rightarrow> SourceFile list \<Rightarrow> (nat \<times> string) list \<Rightarrow> (ProjectGraph \<Rightarrow> Event list) \<Rightarrow> Event list" where
  "handleAnalysis targetPath projectFiles engineProgress persist =
     Progress 35 ''Scanning source files...'' #
     map (\<lambda>p. case p of (pct, message) \<Rightarrow> Progress pct message) engineProgress @
     afterAnalysis (analyze targetPath projectFiles) persist"

section \<open>What the two passes may do to the state\<close>

text \<open>
  Every function of the engine changes the state only by adding an edge, storing a
  node, writing the registry or recording a folder. \<open>steps E N s s'\<close> says that \<open>s'\<close>
  comes from \<open>s\<close> by such operations, every added edge satisfying \<open>E\<close> and every
  stored node \<open>N\<close>. Pass 1 adds no call edge and stores only nodes of the file it
  processes; pass 2 stores no node and adds only call edges from a caller found in
  the node map to a different node.
\<close>

inductive steps ::
  "(string \<Rightarrow> string \<Rightarrow> RelationType \<Rightarrow> bool) \<Rightarrow> (ProjectNode \<Rightarrow> bool) \<Rightarrow>
   AnalyzerState \<Rightarrow> AnalyzerState \<Rightarrow> bool"
  for E :: "string \<Rightarrow> string \<Rightarrow> RelationType \<Rightarrow> bool" and N :: "ProjectNode \<Rightarrow> bool"
where
  steps_refl: "steps E N s s"
| steps_edge: "steps E N s s' \<Longrightarrow> E f t r \<Longrightarrow> steps E N s (withEdge f t r s')"
| steps_node: "steps E N s s' \<Longrightarrow> N n \<Longrightarrow> steps E N s (setNode n s')"
| steps_registry: "steps E N s s' \<Longrightarrow> steps E N s (setRegistry k v s')"
| steps_folder: "steps E N s s' \<Longrightarrow> steps E N s (s'\<lparr>folderPaths := fp\<rparr>)"

definition classNames :: "SourceFile \<Rightarrow> string list" where
  "classNames sf =
     map (\<lambda>p. case p of (idx, cls) \<Rightarrow> nameOr (clsName cls) (''AnonymousClass_'' @ showNat idx))
       (enumerate 0 (getClasses sf))"

definition nodeOfFile :: "string \<Rightarrow> SourceFile \<Rightarrow> ProjectNode \<Rightarrow> bool" where
  "nodeOfFile root sf n =
     (let rel = relativePathOf root (getFilePath sf); fileNodeId = ''file:'' @ rel in
      case nodeType n of
        Folder \<Rightarrow> nodeId n = ''folder:'' @ path n \<and> parentId n = None
      | File \<Rightarrow>
          path n = rel \<and> nodeId n = fileNodeId \<and>
          parentId n =
            (if normSlashes (dirname rel) = ''.'' then None
             else Some (''folder:'' @ normSlashes (dirname rel)))
      | Function \<Rightarrow>
          path n = rel \<and>
          (parentId n = Some fileNodeId \<and> nodeId n = fileNodeId @ '':fn:'' @ name n \<or>
           (\<exists>c \<in> set (classNames sf).
              parentId n = Some (fileNodeId @ '':cls:'' @ c) \<and>
              nodeId n = fileNodeId @ '':cls:'' @ c @ '':method:'' @ name n))
      | Class \<Rightarrow>
          path n = rel \<and> parentId n = Some fileNodeId \<and>
          nodeId n = fileNodeId @ '':cls:'' @ name n \<and> name n \<in> set (classNames sf)
      | Component \<Rightarrow> False)"

lemma steps_trans: "steps E N s' s'' \<Longrightarrow> steps E N s s' \<Longrightarrow> steps E N s s''"
  by (induction rule: steps.induct) (auto intro: steps.intros)

lemma steps_mono:
  "steps E N s s' \<Longrightarrow> (\<And>f t r. E f t r \<Longrightarrow> E' f t r) \<Longrightarrow> (\<And>n. N n \<Longrightarrow> N' n) \<Longrightarrow> steps E' N' s s'"
  by (induction rule: steps.induct) (auto intro: steps.intros)

lemma steps_fold:
  "(\<And>x s. x \<in> set xs \<Longrightarrow> steps E N s (f x s)) \<Longrightarrow> steps E N s (fold f xs s)"
proof (induction xs arbitrary: s)
  case Nil
  show ?case by (simp add: steps_refl)
next
  case (Cons x xs)
  have "steps E N (f x s) (fold f xs (f x s))"
    by (rule Cons.IH) (simp add: Cons.prems)
  moreover have "steps E N s (f x s)"
    by (rule Cons.prems) simp
  ultimately show ?case
    by (simp add: steps_trans)
qed

lemma steps_edge1: "E f t r \<Longrightarrow> steps E N s (withEdge f t r s)"
  by (simp add: steps_edge steps_refl)

abbreviation structural :: "string \<Rightarrow> string \<Rightarrow> RelationType \<Rightarrow> bool" where
  "structural \<equiv> \<lambda>f t r. r \<noteq> Calls"

lemma addFolder_steps: "steps structural (nodeOfFile root sf) s (addFolder d s)"
  unfolding addFolder_def Let_def
  by (auto intro!: steps_edge steps_node steps_folder steps_refl simp: nodeOfFile_def node_defs Let_def)

lemma addFolderLoop_steps: "steps structural (nodeOfFile root sf) s (addFolderLoop d s)"
proof (induction d s rule: addFolderLoop.induct)
  case (1 currentDir s)
  show ?case
  proof (cases "currentDir \<noteq> ''.'' \<and> currentDir \<noteq> [] \<and> currentDir \<noteq> ''/''")
    case True
    from 1 [OF True] addFolder_steps [of root sf s currentDir] True show ?thesis
      by (subst addFolderLoop.simps) (auto intro: steps_trans)
  next
    case False
    then show ?thesis
      by (subst addFolderLoop.simps) (auto intro: steps_refl)
  qed
qed

lemma addFileNode_steps:
  "rel = relativePathOf root (getFilePath sf) \<Longrightarrow>
   steps structural (nodeOfFile root sf) s (addFileNode rel sf s)"
  unfolding addFileNode_def Let_def
  by (auto intro!: steps_edge steps_node steps_refl simp: nodeOfFile_def node_defs Let_def)

lemma addImportEdge_steps: "steps structural N s (addImportEdge root fid resolved s)"
  unfolding addImportEdge_def Let_def
  by (auto intro!: steps_edge steps_refl split: option.splits)

lemma registerFunction_steps:
  "rel = relativePathOf root (getFilePath sf) \<Longrightarrow> fid = ''file:'' @ rel \<Longrightarrow>
   steps structural (nodeOfFile root sf) s (registerFunction fid rel p s)"
  unfolding registerFunction_def Let_def
  by (auto intro!: steps_edge steps_node steps_registry steps_refl simp: nodeOfFile_def node_defs Let_def split: prod.splits)

lemma registerVariable_steps:
  "rel = relativePathOf root (getFilePath sf) \<Longrightarrow> fid = ''file:'' @ rel \<Longrightarrow>
   steps structural (nodeOfFile root sf) s (registerVariable fid rel v s)"
  unfolding registerVariable_def Let_def
  by (auto intro!: steps_edge steps_node steps_registry steps_refl simp: nodeOfFile_def node_defs Let_def
      split: prod.splits option.splits)

lemma registerMethod_steps:
  "rel = relativePathOf root (getFilePath sf) \<Longrightarrow> c \<in> set (classNames sf) \<Longrightarrow> fid = ''file:'' @ rel \<Longrightarrow>
   steps structural (nodeOfFile root sf) s (registerMethod (fid @ '':cls:'' @ c) c rel m s)"
  unfolding registerMethod_def Let_def
  by (auto intro!: steps_edge steps_node steps_registry steps_refl simp: nodeOfFile_def node_defs Let_def)

lemma registerClass_steps:
  assumes rel: "rel = relativePathOf root (getFilePath sf)"
    and p: "p \<in> set (enumerate 0 (getClasses sf))"
    and fid: "fid = ''file:'' @ rel"
  shows "steps structural (nodeOfFile root sf) s (registerClass fid rel p s)"
proof -
  obtain idx cls where pair: "p = (idx, cls)" by (cases p)
  define c where "c = nameOr (clsName cls) (''AnonymousClass_'' @ showNat idx)"
  have mem: "c \<in> set (classNames sf)"
    using p unfolding classNames_def c_def pair by force
  show ?thesis
    unfolding registerClass_def pair prod.case Let_def c_def [symmetric]
    apply (rule steps_trans [OF steps_fold])
     apply (rule registerMethod_steps [OF rel mem fid])
    using mem rel fid
    apply (auto intro!: steps_edge steps_node steps_registry steps_refl simp: nodeOfFile_def node_defs Let_def)
    done
qed

lemma pass1File_steps: "steps structural (nodeOfFile root sf) s (pass1File root sf s)"
proof -
  define rel where "rel = relativePathOf root (getFilePath sf)"
  define fid where "fid = ''file:'' @ rel"
  show ?thesis
  proof (cases "isSkipped rel")
    case True
    then show ?thesis
      by (simp add: pass1File_def rel_def [symmetric] steps_refl)
  next
    case False
    have eq: "pass1File root sf s =
        fold (registerClass fid rel) (enumerate 0 (getClasses sf))
          (fold (registerVariable fid rel) (getVariableDeclarations sf)
             (fold (registerFunction fid rel) (enumerate 0 (getFunctions sf))
                (fold (addImportEdge root fid) (getImportTargets sf)
                   (addFileNode rel sf (addFolderLoop (normSlashes (dirname rel)) s)))))"
      using False
      by (simp add: pass1File_def Let_def rel_def [symmetric] fid_def addFolderNodes_def)
    show ?thesis
      unfolding eq
      by (intro steps_trans [OF steps_fold] registerClass_steps [OF rel_def _ fid_def]
          registerVariable_steps [OF rel_def fid_def] registerFunction_steps [OF rel_def fid_def]
          addImportEdge_steps steps_trans [OF addFileNode_steps [OF rel_def]] addFolderLoop_steps)
  qed
qed


fun callerIdOf :: "string \<Rightarrow> Ancestor \<Rightarrow> string option" where
  "callerIdOf fid (FunctionDeclarationNode (Some t)) = Some (fid @ '':fn:'' @ t)"
| "callerIdOf fid (MethodDeclarationNode (Some c) m) =
     Some (fid @ '':cls:'' @ (case c of None \<Rightarrow> ''undefined'' | Some t \<Rightarrow> t) @ '':method:'' @ m)"
| "callerIdOf fid (VariableDeclarationNode (Some t)) = Some (fid @ '':fn:'' @ t)"
| "callerIdOf fid a = None"

definition callEdge :: "NodesMap \<Rightarrow> string set \<Rightarrow> string \<Rightarrow> string \<Rightarrow> RelationType \<Rightarrow> bool" where
  "callEdge nm C f t r = (r = Calls \<and> f \<noteq> t \<and> has nm f \<and> has nm t \<and> f \<in> C)"

lemma steps_nodes_unchanged: "steps E (\<lambda>n. False) s s' \<Longrightarrow> nodesMap s' = nodesMap s"
  by (induction rule: steps.induct) (simp_all add: withEdge_def setRegistry_def)

lemma steps_fold_fixed_nodes:
  "(\<And>x s'. x \<in> set xs \<Longrightarrow> nodesMap s' = nm \<Longrightarrow> steps E (\<lambda>n. False) s' (f x s')) \<Longrightarrow>
   nodesMap s = nm \<Longrightarrow> steps E (\<lambda>n. False) s (fold f xs s)"
proof (induction xs arbitrary: s)
  case Nil
  show ?case by (simp add: steps_refl)
next
  case (Cons x xs)
  have first: "steps E (\<lambda>n. False) s (f x s)"
    by (rule Cons.prems(1)) (simp_all add: Cons.prems(2))
  have "steps E (\<lambda>n. False) (f x s) (fold f xs (f x s))"
    using steps_nodes_unchanged [OF first] Cons.prems
    by (intro Cons.IH) simp_all
  with first show ?case
    by (simp add: steps_trans)
qed

lemma idAtAncestor_Some:
  "idAtAncestor a fid nm = Some i \<Longrightarrow> callerIdOf fid a = Some i \<and> has nm i"
  by (cases a) (auto simp: idAtAncestor_def Let_def split: option.splits if_splits)

lemma findContainingFunctionId_Some:
  "findContainingFunctionId up fid nm = Some i \<Longrightarrow>
   has nm i \<and> (\<exists>a \<in> set up. callerIdOf fid a = Some i)"
  by (induction up) (auto split: option.splits dest: idAtAncestor_Some)

lemma traceDeclaration_steps:
  "has (nodesMap s) caller \<Longrightarrow> caller \<in> C \<Longrightarrow>
   steps (callEdge (nodesMap s) C) (\<lambda>n. False) s (traceDeclaration root caller declName declPath s)"
  unfolding traceDeclaration_def Let_def
  by (auto intro!: steps_edge steps_refl simp: callEdge_def split: option.splits dest: find_Some_iff [THEN iffD1])

lemma traceCall_steps:
  assumes "\<And>a i. a \<in> set (ancestors ce) \<Longrightarrow> callerIdOf fid a = Some i \<Longrightarrow> i \<in> C"
  shows "steps (callEdge (nodesMap s) C) (\<lambda>n. False) s (traceCall root fid ce s)"
proof (cases "findContainingFunctionId (ancestors ce) fid (nodesMap s)")
  case None
  then show ?thesis by (simp add: traceCall_def steps_refl)
next
  case (Some caller)
  from findContainingFunctionId_Some [OF Some] assms
  have caller: "has (nodesMap s) caller" "caller \<in> C" by auto
  have tier1: "steps (callEdge (nodesMap s) C) (\<lambda>n. False) s (withEdge caller t Calls s)"
    if "registryTarget s calledName caller = Some t" for calledName t
    using that caller
    by (auto intro!: steps_edge steps_refl simp: callEdge_def registryTarget_def split: option.splits if_splits)
  have tier2: "steps (callEdge (nodesMap s) C) (\<lambda>n. False) s
      (fold (traceDeclaration root caller declName) declPaths s)" for declName declPaths
    by (rule steps_fold_fixed_nodes [OF _ refl]) (use caller traceDeclaration_steps in metis)
  show ?thesis
    unfolding traceCall_def Some option.case
    by (auto intro: steps_refl tier1 tier2 split: option.splits prod.splits)
qed


lemma traceCallEdges_steps:
  assumes "\<And>ce a i. ce \<in> set (getCallExpressions sf) \<Longrightarrow> a \<in> set (ancestors ce) \<Longrightarrow>
             callerIdOf (''file:'' @ rel) a = Some i \<Longrightarrow> i \<in> C"
  shows "steps (callEdge (nodesMap s) C) (\<lambda>n. False) s (traceCallEdges root sf rel s)"
  unfolding traceCallEdges_def
  by (rule steps_fold_fixed_nodes [OF _ refl]) (use assms traceCall_steps in metis)

definition callerIds :: "string \<Rightarrow> SourceFile list \<Rightarrow> string set" where
  "callerIds root sourceFiles =
     {i. \<exists>sf \<in> set sourceFiles. \<exists>ce \<in> set (getCallExpressions sf). \<exists>a \<in> set (ancestors ce).
           callerIdOf (''file:'' @ relativePathOf root (getFilePath sf)) a = Some i}"

lemma pass2File_steps:
  assumes "sf \<in> set sourceFiles"
  shows "steps (callEdge (nodesMap s) (callerIds root sourceFiles)) (\<lambda>n. False) s (pass2File root sf s)"
proof -
  have "i \<in> callerIds root sourceFiles"
    if "ce \<in> set (getCallExpressions sf)" "a \<in> set (ancestors ce)"
      "callerIdOf (''file:'' @ relativePathOf root (getFilePath sf)) a = Some i" for ce a i
    unfolding callerIds_def using that assms by blast
  then have "steps (callEdge (nodesMap s) (callerIds root sourceFiles)) (\<lambda>n. False) s
      (traceCallEdges root sf (relativePathOf root (getFilePath sf)) s)"
    by (rule traceCallEdges_steps)
  then show ?thesis
    unfolding pass2File_def Let_def
    by (simp only: steps_refl if_split) simp
qed

lemma pass2_steps:
  "steps (callEdge (nodesMap s) (callerIds root sourceFiles)) (\<lambda>n. False) s (pass2 root sourceFiles s)"
  unfolding pass2_def
  by (rule steps_fold_fixed_nodes [OF _ refl]) (use pass2File_steps in metis)

lemma pass1_steps:
  "steps structural (\<lambda>n. \<exists>sf \<in> set sourceFiles. nodeOfFile root sf n) s (pass1 root sourceFiles s)"
  unfolding pass1_def
  by (rule steps_fold) (rule steps_mono [OF pass1File_steps], auto)

section \<open>Invariants of the two maps\<close>

text \<open>
  What every sequence of such operations keeps: edges keep their endpoints and
  relation, stored nodes stay under their own id, and the key of an edge determines
  its relation, so a count is only ever raised on a call edge.
\<close>

lemma set_update_subset: "set (AList.update k v al) \<subseteq> insert (k, v) (set al)"
  by (induction al) auto

lemma addEdge_cases:
  assumes "(k, e) \<in> set (addEdge f t r em)"
  shows "(e = \<lparr>fromId = f, toId = t, relation = r, callCount = Some 1\<rparr> \<and> k = edgeKey f t r)
       \<or> (k, e) \<in> set em
       \<or> (\<exists>e0 c. e = e0\<lparr>callCount := Some c\<rparr> \<and> (k, e0) \<in> set em \<and> k = edgeKey f t r \<and> r = Calls \<and> 2 \<le> c)"
proof (cases "map_of em (edgeKey f t r)")
  case None
  with assms set_update_subset show ?thesis
    by (fastforce simp: addEdge_def)
next
  case (Some e0)
  then have "(edgeKey f t r, e0) \<in> set em"
    by (rule map_of_SomeD)
  with Some assms set_update_subset [of "edgeKey f t r" _ em] show ?thesis
    by (fastforce simp: addEdge_def Let_def split: if_splits option.splits)
qed

lemma steps_edges_inv:
  assumes "steps E N s s'"
    and "\<forall>(k, e) \<in> set (edgesMap s). Q (fromId e) (toId e) (relation e)"
    and "\<And>f t r. E f t r \<Longrightarrow> Q f t r"
  shows "\<forall>(k, e) \<in> set (edgesMap s'). Q (fromId e) (toId e) (relation e)"
  using assms
proof (induction rule: steps.induct)
  case (steps_edge s s' f t r)
  then have old: "\<forall>(k, e) \<in> set (edgesMap s'). Q (fromId e) (toId e) (relation e)" by simp
  have new: "Q f t r" using steps_edge by simp
  show ?case
  proof (clarify)
    fix k e assume "(k, e) \<in> set (edgesMap (withEdge f t r s'))"
    then have "(k, e) \<in> set (addEdge f t r (edgesMap s'))" by (simp add: withEdge_def)
    from addEdge_cases [OF this] old new show "Q (fromId e) (toId e) (relation e)"
      by fastforce
  qed
qed (simp_all add: setNode_def setRegistry_def)

lemma steps_nodes_inv:
  assumes "steps E N s s'"
    and "\<forall>(k, n) \<in> set (nodesMap s). k = nodeId n \<and> Q n"
    and "\<And>n. N n \<Longrightarrow> Q n"
  shows "\<forall>(k, n) \<in> set (nodesMap s'). k = nodeId n \<and> Q n"
  using assms
proof (induction rule: steps.induct)
  case (steps_node s s' n)
  then have old: "\<forall>(k, n) \<in> set (nodesMap s'). k = nodeId n \<and> Q n" by simp
  have new: "Q n" using steps_node by simp
  from set_update_subset [of "nodeId n" n "nodesMap s'"] old new show ?case
    by (fastforce simp: setNode_def)
qed (simp_all add: withEdge_def setRegistry_def)

lemma steps_distinct_nodes:
  "steps E N s s' \<Longrightarrow> distinct (map fst (nodesMap s)) \<Longrightarrow> distinct (map fst (nodesMap s'))"
  by (induction rule: steps.induct)
     (simp_all add: withEdge_def setRegistry_def setNode_def distinct_update)

lemma relationStr_of_key:
  "takeWhile (\<lambda>c. c \<noteq> CHR 0x92) (rev (edgeKey f t r)) = rev (relationStr r)"
  by (cases r) (simp_all add: edgeKey_def arrow_def)

lemma relationStr_inj: "relationStr r = relationStr r' \<Longrightarrow> r = r'"
  by (cases r; cases r') simp_all

lemma edgeKey_relation: "edgeKey f t r = edgeKey f' t' r' \<Longrightarrow> r = r'"
proof -
  assume "edgeKey f t r = edgeKey f' t' r'"
  then have "rev (relationStr r) = rev (relationStr r')"
    using relationStr_of_key [of f t r] relationStr_of_key [of f' t' r'] by simp
  then show ?thesis
    by (simp add: relationStr_inj)
qed

lemma edgeKey_endpoints:
  assumes "edgeKey f t r = edgeKey f' t' r'" and "CHR 0xE2 \<notin> set f" and "CHR 0xE2 \<notin> set f'"
  shows "f = f' \<and> t = t'"
proof -
  let ?P = "\<lambda>c. c \<noteq> CHR 0xE2"
  have "takeWhile ?P (edgeKey f t r) = f"
    using assms(2) unfolding edgeKey_def arrow_def by (subst takeWhile_append2) auto
  moreover have "takeWhile ?P (edgeKey f' t' r') = f'"
    using assms(3) unfolding edgeKey_def arrow_def by (subst takeWhile_append2) auto
  ultimately have f: "f = f'"
    using assms(1) by simp
  from assms(1) have "r = r'"
    by (rule edgeKey_relation)
  with assms(1) f show ?thesis
    by (simp add: edgeKey_def)
qed

definition countsKept :: "EdgesMap \<Rightarrow> bool" where
  "countsKept em =
     (\<forall>(k, e) \<in> set em.
        k = edgeKey (fromId e) (toId e) (relation e) \<and>
        (\<exists>c. callCount e = Some c \<and> 1 \<le> c) \<and>
        (relation e \<noteq> Calls \<longrightarrow> callCount e = Some 1))"

lemma addEdge_countsKept:
  assumes "countsKept em"
  shows "countsKept (addEdge f t r em)"
  unfolding countsKept_def
proof (clarify)
  fix k e assume "(k, e) \<in> set (addEdge f t r em)"
  from addEdge_cases [OF this]
  show "k = edgeKey (fromId e) (toId e) (relation e) \<and>
        (\<exists>c. callCount e = Some c \<and> 1 \<le> c) \<and>
        (relation e \<noteq> Calls \<longrightarrow> callCount e = Some 1)"
  proof (elim disjE exE conjE)
    assume "e = \<lparr>fromId = f, toId = t, relation = r, callCount = Some 1\<rparr>" "k = edgeKey f t r"
    then show ?thesis by simp
  next
    assume "(k, e) \<in> set em"
    with assms show ?thesis by (auto simp: countsKept_def)
  next
    fix e0 c
    assume e: "e = e0\<lparr>callCount := Some c\<rparr>" and mem: "(k, e0) \<in> set em"
      and k: "k = edgeKey f t r" and r: "r = Calls" and c: "2 \<le> c"
    from assms mem have k0: "k = edgeKey (fromId e0) (toId e0) (relation e0)"
      by (auto simp: countsKept_def)
    with k r have "relation e0 = Calls"
      using edgeKey_relation [of "fromId e0" "toId e0" "relation e0" f t r] by simp
    with e k0 c show ?thesis by simp
  qed
qed

lemma steps_countsKept: "steps E N s s' \<Longrightarrow> countsKept (edgesMap s) \<Longrightarrow> countsKept (edgesMap s')"
  by (induction rule: steps.induct)
     (simp_all add: withEdge_def setRegistry_def setNode_def addEdge_countsKept)

lemma analyze_states:
  obtains s1 s2 where
    "s1 = pass1 root (filter (\<lambda>sf. \<not> isRemoved sf) projectFiles) initialState"
    "s2 = pass2 root (filter (\<lambda>sf. \<not> isRemoved sf) projectFiles) s1"
    "analyze root projectFiles = assemble root s2"
    "nodesMap s2 = nodesMap s1"
  using steps_nodes_unchanged [OF pass2_steps]
  by (simp add: analyze_def Let_def)

lemma edges_subset: "set (edges (assemble root s)) \<subseteq> snd ` set (edgesMap s)"
  by (auto simp: assemble_def Let_def)

lemma nodes_assemble: "nodes (assemble root s) = map snd (nodesMap s)"
  by (simp add: assemble_def Let_def)

lemma pass1_structural:
  "\<forall>(k, e) \<in> set (edgesMap (pass1 root sfs initialState)). relation e \<noteq> Calls"
  using steps_edges_inv [OF pass1_steps, of initialState "\<lambda>f t r. r \<noteq> Calls" root sfs]
  by (simp add: initialState_def)

lemma pass1_nodes:
  "\<forall>(k, n) \<in> set (nodesMap (pass1 root sfs initialState)).
     k = nodeId n \<and> (\<exists>sf \<in> set sfs. nodeOfFile root sf n)"
  by (rule steps_nodes_inv [OF pass1_steps]) (simp_all add: initialState_def)

lemma analyze_node_origin:
  assumes "n \<in> set (nodes (analyze root projectFiles))"
  obtains sf where "sf \<in> set projectFiles" "\<not> isRemoved sf" "nodeOfFile root sf n"
proof -
  obtain s1 s2 where s:
    "s1 = pass1 root (filter (\<lambda>sf. \<not> isRemoved sf) projectFiles) initialState"
    "s2 = pass2 root (filter (\<lambda>sf. \<not> isRemoved sf) projectFiles) s1"
    "analyze root projectFiles = assemble root s2"
    "nodesMap s2 = nodesMap s1"
    by (rule analyze_states)
  from assms obtain k where "(k, n) \<in> set (nodesMap s1)"
    unfolding s(3) nodes_assemble s(4) by force
  with pass1_nodes [of root "filter (\<lambda>sf. \<not> isRemoved sf) projectFiles"]
  obtain sf where "sf \<in> set (filter (\<lambda>sf. \<not> isRemoved sf) projectFiles)" "nodeOfFile root sf n"
    unfolding s(1) by blast
  then show thesis by (intro that [of sf]) simp_all
qed

lemma nodeOfFile_path:
  "nodeOfFile root sf n \<Longrightarrow> nodeType n \<noteq> Folder \<Longrightarrow> path n = relativePathOf root (getFilePath sf)"
  by (cases "nodeType n") (auto simp: nodeOfFile_def Let_def)

lemma nodes_keyed:
  assumes "\<forall>(k, n) \<in> set nm. k = nodeId n"
  shows "map (nodeId \<circ> snd) nm = map fst nm"
  using assms by (induction nm) auto

section \<open>What pass 1 writes to the name registry\<close>

text \<open>
  The keys a file writes: the names of its function declarations, of its variables
  initialised with a function, of its classes, and \<^verbatim>\<open>Class.method\<close> for every method.
  \<open>registered N i s\<close>: the registry maps \<open>N\<close> to \<open>i\<close> and \<open>i\<close> is a node.
\<close>

definition isFunctionVar :: "VariableDecl \<Rightarrow> bool" where
  "isFunctionVar v =
     (case varInit v of
        None \<Rightarrow> False
      | Some (kind, initText) \<Rightarrow> kind = ArrowFunction \<or> kind = FunctionExpression)"

definition functionNames :: "SourceFile \<Rightarrow> string list" where
  "functionNames sf =
     map (\<lambda>p. case p of (idx, fn) \<Rightarrow> nameOr (fnName fn) (''anonymous_'' @ showNat idx))
       (enumerate 0 (getFunctions sf))"

definition variableFunctionNames :: "SourceFile \<Rightarrow> string list" where
  "variableFunctionNames sf = map varName (filter isFunctionVar (getVariableDeclarations sf))"

definition methodKeys :: "SourceFile \<Rightarrow> string list" where
  "methodKeys sf =
     concat
       (map (\<lambda>p. case p of (idx, cls) \<Rightarrow>
               map (\<lambda>m. nameOr (clsName cls) (''AnonymousClass_'' @ showNat idx) @ ''.'' @ methodName m)
                 (clsMethods cls))
          (enumerate 0 (getClasses sf)))"

definition registryKeys :: "SourceFile \<Rightarrow> string list" where
  "registryKeys sf = functionNames sf @ variableFunctionNames sf @ classNames sf @ methodKeys sf"

definition registered :: "string \<Rightarrow> string \<Rightarrow> AnalyzerState \<Rightarrow> bool" where
  "registered N i s = (fnRegistry s N = Some i \<and> has (nodesMap s) i)"

definition unclaimed :: "string \<Rightarrow> string \<Rightarrow> AnalyzerState \<Rightarrow> bool" where
  "unclaimed N i s = (has (nodesMap s) i \<longrightarrow> fnRegistry s N = Some i)"

lemma has_setNode: "has (nodesMap (setNode n s)) k = (k = nodeId n \<or> has (nodesMap s) k)"
  by (auto simp: has_def setNode_def update_conv')

lemma has_withEdge: "has (nodesMap (withEdge f t r s)) k = has (nodesMap s) k"
  by (simp add: withEdge_def)

lemma has_setRegistry: "has (nodesMap (setRegistry a b s)) k = has (nodesMap s) k"
  by (simp add: setRegistry_def)

lemma fnRegistry_withEdge: "fnRegistry (withEdge f t r s) = fnRegistry s"
  by (simp add: withEdge_def)

lemma fnRegistry_setNode: "fnRegistry (setNode n s) = fnRegistry s"
  by (simp add: setNode_def)

lemma fnRegistry_setRegistry: "fnRegistry (setRegistry a b s) = (fnRegistry s)(a \<mapsto> b)"
  by (simp add: setRegistry_def)

lemmas state_simps =
  has_setNode has_withEdge has_setRegistry fnRegistry_withEdge fnRegistry_setNode
  fnRegistry_setRegistry

lemma addFolder_effect:
  "fnRegistry (addFolder d s) = fnRegistry s \<and>
   (has (nodesMap (addFolder d s)) (''file:'' @ x) = has (nodesMap s) (''file:'' @ x))"
  by (simp add: addFolder_def Let_def state_simps folderNode_def)

lemma addFolderLoop_effect:
  "fnRegistry (addFolderLoop d s) = fnRegistry s \<and>
   (has (nodesMap (addFolderLoop d s)) (''file:'' @ x) = has (nodesMap s) (''file:'' @ x))"
proof (induction d s rule: addFolderLoop.induct)
  case (1 currentDir s)
  show ?case
  proof (cases "currentDir \<noteq> ''.'' \<and> currentDir \<noteq> [] \<and> currentDir \<noteq> ''/''")
    case True
    from 1 [OF True] addFolder_effect [of currentDir s x] True show ?thesis
      by (subst (1 2) addFolderLoop.simps) simp
  next
    case False
    then show ?thesis
      by (subst (1 2) addFolderLoop.simps) auto
  qed
qed

lemma addFileNode_effect:
  "fnRegistry (addFileNode rel sf s) = fnRegistry s \<and>
   (has (nodesMap (addFileNode rel sf s)) ((''file:'' @ rel) @ '':fn:'' @ N) =
    has (nodesMap s) ((''file:'' @ rel) @ '':fn:'' @ N))"
  by (simp add: addFileNode_def Let_def state_simps fileNode_def)

lemma addImportEdge_effect:
  "fnRegistry (addImportEdge root fid r s) = fnRegistry s \<and>
   nodesMap (addImportEdge root fid r s) = nodesMap s"
  by (simp add: addImportEdge_def Let_def withEdge_def split: option.splits)

lemma fold_addImportEdge_effect:
  "fnRegistry (fold (addImportEdge root fid) rs s) = fnRegistry s \<and>
   nodesMap (fold (addImportEdge root fid) rs s) = nodesMap s"
  by (induction rs arbitrary: s) (simp_all add: addImportEdge_effect)


lemma registerFunction_effect:
  fixes fid N
  defines "i \<equiv> fid @ '':fn:'' @ N"
  assumes "s' = registerFunction fid rel (idx, fn) s"
    and "nm = nameOr (fnName fn) (''anonymous_'' @ showNat idx)"
  shows "(nm = N \<longrightarrow> registered N i s') \<and> (registered N i s \<longrightarrow> registered N i s') \<and>
         (unclaimed N i s \<longrightarrow> unclaimed N i s') \<and>
         (nm \<noteq> N \<longrightarrow> fnRegistry s' N = fnRegistry s N)"
  using assms(2,3)
  by (auto simp: registerFunction_def Let_def state_simps registered_def unclaimed_def i_def
      functionNode_def)

lemma registerVariable_effect:
  fixes fid N
  defines "i \<equiv> fid @ '':fn:'' @ N"
  assumes "s' = registerVariable fid rel v s"
  shows "(isFunctionVar v \<and> varName v = N \<and> unclaimed N i s \<longrightarrow> registered N i s') \<and>
         (registered N i s \<longrightarrow> registered N i s') \<and>
         (unclaimed N i s \<longrightarrow> unclaimed N i s') \<and>
         (\<not> (isFunctionVar v \<and> varName v = N) \<longrightarrow> fnRegistry s' N = fnRegistry s N)"
  using assms(2)
  by (auto simp: registerVariable_def Let_def state_simps registered_def unclaimed_def i_def
      variableNode_def isFunctionVar_def split: option.splits prod.splits)


definition functionNameOf :: "nat \<times> FunctionDecl \<Rightarrow> string" where
  "functionNameOf p = (case p of (idx, fn) \<Rightarrow> nameOr (fnName fn) (''anonymous_'' @ showNat idx))"

definition classNameOf :: "nat \<times> ClassDecl \<Rightarrow> string" where
  "classNameOf p = (case p of (idx, cls) \<Rightarrow> nameOr (clsName cls) (''AnonymousClass_'' @ showNat idx))"

definition methodKeysOf :: "nat \<times> ClassDecl \<Rightarrow> string list" where
  "methodKeysOf p = map (\<lambda>m. classNameOf p @ ''.'' @ methodName m) (clsMethods (snd p))"

lemma fold_registerFunction_effect:
  fixes fid N
  defines "i \<equiv> fid @ '':fn:'' @ N"
  shows "(N \<in> functionNameOf ` set ps \<longrightarrow> registered N i (fold (registerFunction fid rel) ps s)) \<and>
         (registered N i s \<longrightarrow> registered N i (fold (registerFunction fid rel) ps s)) \<and>
         (unclaimed N i s \<longrightarrow> unclaimed N i (fold (registerFunction fid rel) ps s)) \<and>
         (N \<notin> functionNameOf ` set ps \<longrightarrow> fnRegistry (fold (registerFunction fid rel) ps s) N = fnRegistry s N)"
proof (induction ps arbitrary: s)
  case Nil
  show ?case by simp
next
  case (Cons p ps)
  obtain idx fn where p: "p = (idx, fn)" by (cases p)
  from registerFunction_effect [OF refl refl, where N = N and fid = fid and rel = rel and idx = idx and fn = fn and s = s]
    Cons.IH [where s = "registerFunction fid rel p s"]
  show ?case
    unfolding p i_def by (auto simp: functionNameOf_def)
qed

lemma fold_registerVariable_effect:
  fixes fid N
  defines "i \<equiv> fid @ '':fn:'' @ N"
  shows "(N \<in> varName ` set (filter isFunctionVar vs) \<and> unclaimed N i s \<longrightarrow>
            registered N i (fold (registerVariable fid rel) vs s)) \<and>
         (registered N i s \<longrightarrow> registered N i (fold (registerVariable fid rel) vs s)) \<and>
         (unclaimed N i s \<longrightarrow> unclaimed N i (fold (registerVariable fid rel) vs s)) \<and>
         (N \<notin> varName ` set (filter isFunctionVar vs) \<longrightarrow>
            fnRegistry (fold (registerVariable fid rel) vs s) N = fnRegistry s N)"
proof (induction vs arbitrary: s)
  case Nil
  show ?case by simp
next
  case (Cons v vs)
  from registerVariable_effect [OF refl, where N = N and fid = fid and rel = rel and v = v and s = s]
    Cons.IH [where s = "registerVariable fid rel v s"]
  show ?case
    unfolding i_def by auto
qed

lemma registerMethod_effect:
  "(clsNm @ ''.'' @ methodName m \<noteq> N \<longrightarrow>
      fnRegistry (registerMethod clsId clsNm rel m s) N = fnRegistry s N) \<and>
   (has (nodesMap s) k \<longrightarrow> has (nodesMap (registerMethod clsId clsNm rel m s)) k)"
  by (simp add: registerMethod_def Let_def state_simps)

lemma fold_registerMethod_effect:
  "((\<forall>m \<in> set ms. clsNm @ ''.'' @ methodName m \<noteq> N) \<longrightarrow>
      fnRegistry (fold (registerMethod clsId clsNm rel) ms s) N = fnRegistry s N) \<and>
   (has (nodesMap s) k \<longrightarrow> has (nodesMap (fold (registerMethod clsId clsNm rel) ms s)) k)"
proof (induction ms arbitrary: s)
  case Nil
  show ?case by simp
next
  case (Cons m ms)
  from registerMethod_effect [where clsNm = clsNm and m = m and N = N and clsId = clsId and rel = rel and s = s and k = k]
    Cons.IH [where s = "registerMethod clsId clsNm rel m s"]
  show ?case by auto
qed

lemma registerClass_effect:
  assumes "N \<notin> set (methodKeysOf p)"
  shows "(classNameOf p = N \<longrightarrow> registered N (fid @ '':cls:'' @ N) (registerClass fid rel p s)) \<and>
         (classNameOf p \<noteq> N \<longrightarrow> fnRegistry (registerClass fid rel p s) N = fnRegistry s N) \<and>
         (has (nodesMap s) k \<longrightarrow> has (nodesMap (registerClass fid rel p s)) k)"
proof -
  obtain idx cls where p: "p = (idx, cls)" by (cases p)
  define nm where "nm = nameOr (clsName cls) (''AnonymousClass_'' @ showNat idx)"
  define clsId where "clsId = fid @ '':cls:'' @ nm"
  define s1 where "s1 = withEdge fid clsId Contains
                    (setNode (classNode fid rel nm cls) (setRegistry nm clsId s))"
  have name: "classNameOf p = nm"
    by (simp add: p classNameOf_def nm_def)
  have keys: "\<forall>m \<in> set (clsMethods cls). nm @ ''.'' @ methodName m \<noteq> N"
    using assms unfolding p methodKeysOf_def classNameOf_def nm_def by auto
  have eq: "registerClass fid rel p s = fold (registerMethod clsId nm rel) (clsMethods cls) s1"
    by (simp add: p registerClass_def Let_def nm_def clsId_def s1_def)
  have reg: "fnRegistry (registerClass fid rel p s) N = fnRegistry s1 N"
    unfolding eq
    by (rule fold_registerMethod_effect [THEN conjunct1, THEN mp, OF keys])
  have mono: "has (nodesMap (registerClass fid rel p s)) j" if "has (nodesMap s1) j" for j
    unfolding eq using that
    by (rule fold_registerMethod_effect [THEN conjunct2, THEN mp])
  have reg1: "fnRegistry s1 N = (if nm = N then Some clsId else fnRegistry s N)"
    by (simp add: s1_def state_simps)
  have has1: "has (nodesMap s1) clsId"
    by (simp add: s1_def state_simps classNode_def clsId_def)
  have has0: "has (nodesMap s1) k" if "has (nodesMap s) k"
    using that by (simp add: s1_def state_simps)
  show ?thesis
  proof (intro conjI impI)
    assume "classNameOf p = N"
    with name have "nm = N" by simp
    then have "clsId = fid @ '':cls:'' @ N" by (simp add: clsId_def)
    with reg reg1 \<open>nm = N\<close> mono [OF has1]
    show "registered N (fid @ '':cls:'' @ N) (registerClass fid rel p s)"
      by (simp add: registered_def)
  next
    assume "classNameOf p \<noteq> N"
    with name reg reg1 show "fnRegistry (registerClass fid rel p s) N = fnRegistry s N"
      by simp
  next
    assume "has (nodesMap s) k"
    then show "has (nodesMap (registerClass fid rel p s)) k"
      by (intro mono has0)
  qed
qed

lemma fold_registerClass_effect:
  assumes "\<forall>p \<in> set ps. N \<notin> set (methodKeysOf p)"
  shows "(N \<in> classNameOf ` set ps \<longrightarrow>
            registered N (fid @ '':cls:'' @ N) (fold (registerClass fid rel) ps s)) \<and>
         (N \<notin> classNameOf ` set ps \<longrightarrow>
            fnRegistry (fold (registerClass fid rel) ps s) N = fnRegistry s N) \<and>
         (has (nodesMap s) k \<longrightarrow> has (nodesMap (fold (registerClass fid rel) ps s)) k)"
  using assms
proof (induction ps arbitrary: s k)
  case Nil
  show ?case by simp
next
  case (Cons p ps)
  then have p: "N \<notin> set (methodKeysOf p)" and ps: "\<forall>p \<in> set ps. N \<notin> set (methodKeysOf p)"
    by simp_all
  note step = registerClass_effect [OF p, where fid = fid and rel = rel and s = s and k = k]
  note rest = Cons.IH [OF ps, where s = "registerClass fid rel p s" and k = k]
  have mono: "has (nodesMap (registerClass fid rel p s)) j \<Longrightarrow>
      has (nodesMap (fold (registerClass fid rel) ps (registerClass fid rel p s))) j" for j
    using Cons.IH [OF ps, where k = j and s = "registerClass fid rel p s"] by simp
  show ?case
  proof (intro conjI impI)
    assume "N \<in> classNameOf ` set (p # ps)"
    show "registered N (fid @ '':cls:'' @ N) (fold (registerClass fid rel) (p # ps) s)"
    proof (cases "N \<in> classNameOf ` set ps")
      case True
      with rest show ?thesis by simp
    next
      case False
      with \<open>N \<in> classNameOf ` set (p # ps)\<close> have "classNameOf p = N" by auto
      with step have "registered N (fid @ '':cls:'' @ N) (registerClass fid rel p s)" by simp
      with False rest mono show ?thesis
        by (simp add: registered_def)
    qed
  next
    assume "N \<notin> classNameOf ` set (p # ps)"
    with step rest show "fnRegistry (fold (registerClass fid rel) (p # ps) s) N = fnRegistry s N"
      by auto
  next
    assume "has (nodesMap s) k"
    with step have "has (nodesMap (registerClass fid rel p s)) k" by simp
    then show "has (nodesMap (fold (registerClass fid rel) (p # ps) s)) k"
      using Cons.IH [OF ps, where k = k and s = "registerClass fid rel p s"] by simp
  qed
qed


lemma pass1File_unfold:
  assumes "\<not> isSkipped (relativePathOf root (getFilePath sf))"
    and "rel = relativePathOf root (getFilePath sf)" and "fid = ''file:'' @ rel"
  shows "pass1File root sf s =
        fold (registerClass fid rel) (enumerate 0 (getClasses sf))
          (fold (registerVariable fid rel) (getVariableDeclarations sf)
             (fold (registerFunction fid rel) (enumerate 0 (getFunctions sf))
                (fold (addImportEdge root fid) (getImportTargets sf)
                   (addFileNode rel sf (addFolderLoop (normSlashes (dirname rel)) s)))))"
  using assms by (simp add: pass1File_def Let_def addFolderNodes_def)

lemma names_as_images:
  "set (functionNames sf) = functionNameOf ` set (enumerate 0 (getFunctions sf))"
  "set (classNames sf) = classNameOf ` set (enumerate 0 (getClasses sf))"
  "set (variableFunctionNames sf) = varName ` set (filter isFunctionVar (getVariableDeclarations sf))"
  "set (methodKeys sf) = (\<Union>p \<in> set (enumerate 0 (getClasses sf)). set (methodKeysOf p))"
  by (auto simp: functionNames_def classNames_def variableFunctionNames_def methodKeys_def
      functionNameOf_def classNameOf_def methodKeysOf_def split: prod.splits)

lemma prelude_effect:
  "fnRegistry (fold (addImportEdge root (''file:'' @ rel)) targets
      (addFileNode rel sf (addFolderLoop d s))) = fnRegistry s \<and>
   has (nodesMap (fold (addImportEdge root (''file:'' @ rel)) targets
      (addFileNode rel sf (addFolderLoop d s)))) ((''file:'' @ rel) @ '':fn:'' @ N) =
   has (nodesMap s) ((''file:'' @ rel) @ '':fn:'' @ N)"
proof -
  have "has (nodesMap (addFolderLoop d s)) (''file:'' @ (rel @ '':fn:'' @ N)) =
        has (nodesMap s) (''file:'' @ (rel @ '':fn:'' @ N))"
    using addFolderLoop_effect by blast
  then have "has (nodesMap (addFolderLoop d s)) ((''file:'' @ rel) @ '':fn:'' @ N) =
             has (nodesMap s) ((''file:'' @ rel) @ '':fn:'' @ N)"
    by simp
  then show ?thesis
    using addFileNode_effect [where rel = rel and sf = sf and s = "addFolderLoop d s" and N = N]
    by (simp add: fold_addImportEdge_effect addFolderLoop_effect)
qed

lemma steps_has_mono: "steps E N s s' \<Longrightarrow> has (nodesMap s) k \<Longrightarrow> has (nodesMap s') k"
  by (induction rule: steps.induct) (simp_all add: state_simps)

lemma pass1File_registry_other:
  assumes "isSkipped (relativePathOf root (getFilePath sf)) \<or> N \<notin> set (registryKeys sf)"
  shows "fnRegistry (pass1File root sf s) N = fnRegistry s N"
proof (cases "isSkipped (relativePathOf root (getFilePath sf))")
  case True
  then show ?thesis by (simp add: pass1File_def)
next
  case False
  with assms have keys: "N \<notin> set (registryKeys sf)" by simp
  define rel where "rel = relativePathOf root (getFilePath sf)"
  define fid where "fid = ''file:'' @ rel"
  from keys have
    fns: "N \<notin> functionNameOf ` set (enumerate 0 (getFunctions sf))" and
    vars: "N \<notin> varName ` set (filter isFunctionVar (getVariableDeclarations sf))" and
    cls: "N \<notin> classNameOf ` set (enumerate 0 (getClasses sf))" and
    ms: "\<forall>p \<in> set (enumerate 0 (getClasses sf)). N \<notin> set (methodKeysOf p)"
    unfolding registryKeys_def using names_as_images [of sf] by auto
  show ?thesis
    unfolding pass1File_unfold [OF False rel_def fid_def]
    using fold_registerClass_effect [OF ms, THEN conjunct2, THEN conjunct1, THEN mp, OF cls]
      fold_registerVariable_effect [THEN conjunct2, THEN conjunct2, THEN conjunct2, THEN mp, OF vars]
      fold_registerFunction_effect [THEN conjunct2, THEN conjunct2, THEN conjunct2, THEN mp, OF fns]
      prelude_effect [THEN conjunct1]
    unfolding fid_def by simp
qed

lemma pass1_registry_other:
  assumes "\<forall>F \<in> set fs. isSkipped (relativePathOf root (getFilePath F)) \<or> N \<notin> set (registryKeys F)"
  shows "fnRegistry (pass1 root fs s) N = fnRegistry s N"
  using assms unfolding pass1_def
  by (induction fs arbitrary: s) (simp_all add: pass1File_registry_other)

lemma pass1_has_mono: "has (nodesMap s) k \<Longrightarrow> has (nodesMap (pass1 root fs s)) k"
  using steps_has_mono [OF pass1_steps] by blast


lemma pass1File_registers:
  assumes proc: "\<not> isSkipped (relativePathOf root (getFilePath sf))"
    and rel: "rel = relativePathOf root (getFilePath sf)" and fid: "fid = ''file:'' @ rel"
    and unq: "CHR ''.'' \<notin> set N"
  shows "(N \<in> set (classNames sf) \<longrightarrow> registered N (fid @ '':cls:'' @ N) (pass1File root sf s)) \<and>
         (N \<notin> set (classNames sf) \<and>
          (N \<in> set (functionNames sf) \<or>
           N \<in> set (variableFunctionNames sf) \<and> \<not> has (nodesMap s) (fid @ '':fn:'' @ N)) \<longrightarrow>
          registered N (fid @ '':fn:'' @ N) (pass1File root sf s))"
proof -
  define s0 where "s0 = fold (addImportEdge root fid) (getImportTargets sf)
                     (addFileNode rel sf (addFolderLoop (normSlashes (dirname rel)) s))"
  define s1 where "s1 = fold (registerFunction fid rel) (enumerate 0 (getFunctions sf)) s0"
  define s2 where "s2 = fold (registerVariable fid rel) (getVariableDeclarations sf) s1"
  have final: "pass1File root sf s = fold (registerClass fid rel) (enumerate 0 (getClasses sf)) s2"
    unfolding pass1File_unfold [OF proc rel fid] s2_def s1_def s0_def ..
  have ms: "\<forall>p \<in> set (enumerate 0 (getClasses sf)). N \<notin> set (methodKeysOf p)"
    using unq by (auto simp: methodKeysOf_def)
  note classes = fold_registerClass_effect [OF ms, where fid = fid and rel = rel and s = s2]
  note vars = fold_registerVariable_effect
    [where N = N and fid = fid and rel = rel and vs = "getVariableDeclarations sf" and s = s1]
  note fns = fold_registerFunction_effect
    [where N = N and fid = fid and rel = rel and ps = "enumerate 0 (getFunctions sf)" and s = s0]
  have pre: "has (nodesMap s0) (fid @ '':fn:'' @ N) = has (nodesMap s) (fid @ '':fn:'' @ N)"
    unfolding s0_def fid by (rule prelude_effect [THEN conjunct2])
  show ?thesis
  proof (intro conjI impI)
    assume "N \<in> set (classNames sf)"
    with classes show "registered N (fid @ '':cls:'' @ N) (pass1File root sf s)"
      unfolding final names_as_images by blast
  next
    assume a: "N \<notin> set (classNames sf) \<and>
          (N \<in> set (functionNames sf) \<or>
           N \<in> set (variableFunctionNames sf) \<and> \<not> has (nodesMap s) (fid @ '':fn:'' @ N))"
    have "registered N (fid @ '':fn:'' @ N) s2"
    proof (cases "N \<in> set (functionNames sf)")
      case True
      with fns have "registered N (fid @ '':fn:'' @ N) s1"
        unfolding s1_def names_as_images by blast
      with vars show ?thesis
        unfolding s2_def by blast
    next
      case False
      with a have v: "N \<in> set (variableFunctionNames sf)"
        and fresh: "\<not> has (nodesMap s) (fid @ '':fn:'' @ N)" by simp_all
      from fresh pre have "unclaimed N (fid @ '':fn:'' @ N) s0"
        by (simp add: unclaimed_def)
      with fns have "unclaimed N (fid @ '':fn:'' @ N) s1"
        unfolding s1_def by blast
      with vars v show ?thesis
        unfolding s2_def names_as_images by blast
    qed
    moreover from a classes
    have "fnRegistry (pass1File root sf s) N = fnRegistry s2 N"
      unfolding final names_as_images by blast
    moreover from classes
    have "has (nodesMap s2) k \<Longrightarrow> has (nodesMap (pass1File root sf s)) k" for k
      unfolding final
      using fold_registerClass_effect [OF ms, where fid = fid and rel = rel and s = s2 and k = k]
      by blast
    ultimately show "registered N (fid @ '':fn:'' @ N) (pass1File root sf s)"
      by (simp add: registered_def)
  qed
qed

section \<open>What pass 2 keeps\<close>

text \<open>
  Pass 2 only calls \<^verbatim>\<open>addEdge\<close>: a later state has the same registry and node map, and
  every key of the edge map is still a key.
\<close>

definition extends :: "AnalyzerState \<Rightarrow> AnalyzerState \<Rightarrow> bool" where
  "extends s s' =
     (fnRegistry s' = fnRegistry s \<and> nodesMap s' = nodesMap s \<and>
      (\<forall>k. has (edgesMap s) k \<longrightarrow> has (edgesMap s') k))"

lemma extends_refl: "extends s s"
  by (simp add: extends_def)

lemma extends_trans: "extends s s' \<Longrightarrow> extends s' s'' \<Longrightarrow> extends s s''"
  by (simp add: extends_def)

lemma addEdge_has_key: "has (addEdge f t r m) (edgeKey f t r)"
  by (auto simp: addEdge_def has_def Let_def update_conv' split: option.splits)

lemma addEdge_keeps_keys: "has m k \<Longrightarrow> has (addEdge f t r m) k"
  by (auto simp: addEdge_def has_def Let_def update_conv' split: option.splits)

lemma withEdge_extends: "extends s (withEdge f t r s)"
  by (simp add: extends_def withEdge_def addEdge_keeps_keys)

lemma fold_extends:
  "(\<And>x s. extends s (f x s)) \<Longrightarrow> extends s (fold f xs s)"
proof (induction xs arbitrary: s)
  case Nil
  show ?case by (simp add: extends_refl)
next
  case (Cons x xs)
  from Cons.prems have "extends s (f x s)" .
  moreover from Cons.prems have "extends (f x s) (fold f xs (f x s))"
    by (rule Cons.IH)
  ultimately show ?case
    by (simp add: extends_trans)
qed

lemma traceDeclaration_extends: "extends s (traceDeclaration root caller declName declPath s)"
  unfolding traceDeclaration_def Let_def
  by (auto simp: withEdge_extends extends_refl split: option.splits)

lemma traceCall_extends: "extends s (traceCall root fid ce s)"
  unfolding traceCall_def
  by (auto intro: withEdge_extends extends_refl fold_extends traceDeclaration_extends
        split: option.splits prod.splits)

lemma pass2File_extends: "extends s (pass2File root sf s)"
  unfolding pass2File_def Let_def traceCallEdges_def
  by (auto intro: extends_refl fold_extends traceCall_extends)

lemma pass2_extends: "extends s (pass2 root sfs s)"
  unfolding pass2_def
  by (intro fold_extends pass2File_extends)

lemma registryTarget_extends: "extends s s' \<Longrightarrow> registryTarget s' N c = registryTarget s N c"
  by (simp add: extends_def registryTarget_def split: option.splits)

lemma tier1_adds_edge:
  assumes "calledNameOf (fnRegistry s) (callee ce) = Some N" and "N \<noteq> []"
    and "findContainingFunctionId (ancestors ce) fid (nodesMap s) = Some caller"
    and "registryTarget s N caller = Some target"
  shows "traceCall root fid ce s = withEdge caller target Calls s"
  using assms by (simp add: traceCall_def)

lemma pass2_wires_call:
  assumes F: "F \<in> set sfs" and processed: "\<not> isSkipped (relativePathOf root (getFilePath F))"
    and ce: "ce \<in> set (getCallExpressions F)"
    and name: "calledNameOf (fnRegistry s) (callee ce) = Some N" "N \<noteq> []"
    and caller: "findContainingFunctionId (ancestors ce)
                   (''file:'' @ relativePathOf root (getFilePath F)) (nodesMap s) = Some caller"
    and target: "registryTarget s N caller = Some target"
  shows "has (edgesMap (pass2 root sfs s)) (edgeKey caller target Calls)"
proof -
  define fid where "fid = ''file:'' @ relativePathOf root (getFilePath F)"
  from F obtain xs ys where sfs: "sfs = xs @ F # ys"
    by (auto dest: split_list)
  from ce obtain cs1 cs2 where cs: "getCallExpressions F = cs1 @ ce # cs2"
    by (auto dest: split_list)
  define sa where "sa = pass2 root xs s"
  define sb where "sb = fold (traceCall root fid) cs1 sa"
  define sc where "sc = traceCall root fid ce sb"
  have "extends s sa"
    unfolding sa_def by (rule pass2_extends)
  moreover have "extends sa sb"
    unfolding sb_def by (intro fold_extends traceCall_extends)
  ultimately have sb: "extends s sb"
    by (rule extends_trans)
  then have "sc = withEdge caller target Calls sb"
    unfolding sc_def
    using name caller target registryTarget_extends [OF sb]
    by (intro tier1_adds_edge [where N = N]) (simp_all add: extends_def fid_def)
  then have here: "has (edgesMap sc) (edgeKey caller target Calls)"
    by (simp add: withEdge_def addEdge_has_key)
  have run: "pass2 root sfs s = pass2 root ys (fold (traceCall root fid) cs2 sc)"
    using processed
    by (simp add: sfs pass2_def pass2File_def Let_def traceCallEdges_def cs sa_def sb_def sc_def fid_def)
  have "extends sc (fold (traceCall root fid) cs2 sc)"
    by (intro fold_extends traceCall_extends)
  moreover have "extends (fold (traceCall root fid) cs2 sc) (pass2 root sfs s)"
    unfolding run by (rule pass2_extends)
  ultimately have "extends sc (pass2 root sfs s)"
    by (rule extends_trans)
  with here show ?thesis
    by (simp add: extends_def)
qed

lemma pass2_call_endpoints:
  "\<forall>(k, e) \<in> set (edgesMap (pass2 root sfs (pass1 root sfs initialState))).
     relation e = Calls \<longrightarrow>
     has (nodesMap (pass1 root sfs initialState)) (fromId e) \<and>
     has (nodesMap (pass1 root sfs initialState)) (toId e)"
proof -
  let ?s1 = "pass1 root sfs initialState"
  let ?Q = "\<lambda>f t r. r = Calls \<longrightarrow> has (nodesMap ?s1) f \<and> has (nodesMap ?s1) t"
  have "\<forall>(k, e) \<in> set (edgesMap ?s1). ?Q (fromId e) (toId e) (relation e)"
    using pass1_structural [of root sfs] by fastforce
  then show ?thesis
    by (rule steps_edges_inv [OF pass2_steps]) (simp add: callEdge_def)
qed

lemma has_node_id:
  assumes "has (nodesMap (pass1 root sfs initialState)) i"
  shows "i \<in> set (map nodeId (map snd (nodesMap (pass1 root sfs initialState))))"
proof -
  from assms obtain n where "map_of (nodesMap (pass1 root sfs initialState)) i = Some n"
    by (auto simp: has_def)
  then have mem: "(i, n) \<in> set (nodesMap (pass1 root sfs initialState))"
    by (rule map_of_SomeD)
  with pass1_nodes [of root sfs] have "i = nodeId n"
    by blast
  with mem show ?thesis
    by force
qed

lemma analyze_wires_call:
  assumes files: "filter (\<lambda>sf. \<not> isRemoved sf) projectFiles = sfs"
    and F: "F \<in> set sfs" and processed: "\<not> isSkipped (relativePathOf root (getFilePath F))"
    and ce: "ce \<in> set (getCallExpressions F)"
    and name: "calledNameOf (fnRegistry (pass1 root sfs initialState)) (callee ce) = Some N" "N \<noteq> []"
    and caller: "findContainingFunctionId (ancestors ce)
                   (''file:'' @ relativePathOf root (getFilePath F))
                   (nodesMap (pass1 root sfs initialState)) = Some caller"
    and target: "registryTarget (pass1 root sfs initialState) N caller = Some target"
  shows "\<exists>e \<in> set (edges (analyze root projectFiles)).
           relation e = Calls \<and> edgeKey (fromId e) (toId e) Calls = edgeKey caller target Calls \<and>
           (CHR 0xE2 \<notin> set (fromId e) \<and> CHR 0xE2 \<notin> set caller \<longrightarrow>
              fromId e = caller \<and> toId e = target)"
proof -
  define s1 where "s1 = pass1 root sfs initialState"
  define s2 where "s2 = pass2 root sfs s1"
  have graph: "analyze root projectFiles = assemble root s2"
    by (simp add: analyze_def Let_def files s1_def s2_def)
  have nodes: "nodesMap s2 = nodesMap s1"
    using pass2_extends [of s1 root sfs] by (simp add: extends_def s2_def)
  have "has (edgesMap s2) (edgeKey caller target Calls)"
    unfolding s2_def s1_def
    by (rule pass2_wires_call [OF F processed ce name caller target])
  then obtain e where "map_of (edgesMap s2) (edgeKey caller target Calls) = Some e"
    by (auto simp: has_def)
  then have mem: "(edgeKey caller target Calls, e) \<in> set (edgesMap s2)"
    by (rule map_of_SomeD)
  have "countsKept (edgesMap s2)"
    unfolding s2_def s1_def
    by (intro steps_countsKept [OF pass2_steps] steps_countsKept [OF pass1_steps])
       (simp add: countsKept_def initialState_def)
  with mem have key: "edgeKey caller target Calls = edgeKey (fromId e) (toId e) (relation e)"
    by (auto simp: countsKept_def)
  then have rel: "relation e = Calls"
    by (auto dest: edgeKey_relation)
  with mem pass2_call_endpoints [of root sfs]
  have ends: "has (nodesMap s1) (fromId e)" "has (nodesMap s1) (toId e)"
    unfolding s2_def s1_def by auto
  have "fromId e \<in> set (map nodeId (map snd (nodesMap s2)))"
    using ends(1) unfolding nodes s1_def by (rule has_node_id)
  moreover have "toId e \<in> set (map nodeId (map snd (nodesMap s2)))"
    using ends(2) unfolding nodes s1_def by (rule has_node_id)
  ultimately have "fromId e \<in> set (map nodeId (map snd (nodesMap s2)))"
    and "toId e \<in> set (map nodeId (map snd (nodesMap s2)))"
    by simp_all
  with mem have "e \<in> set (edges (assemble root s2))"
    by (force simp: assemble_def Let_def)
  moreover have "CHR 0xE2 \<notin> set (fromId e) \<and> CHR 0xE2 \<notin> set caller \<longrightarrow>
      fromId e = caller \<and> toId e = target"
    using edgeKey_endpoints [OF key] by auto
  ultimately show ?thesis
    using key rel unfolding graph by auto
qed

section \<open>The ids the caller search builds\<close>





















section \<open>A small project\<close>

text \<open>
  Two source files and a vendored one. \<^verbatim>\<open>a.ts\<close> declares \<^verbatim>\<open>helper\<close> and a class
  whose method calls it; \<^verbatim>\<open>src/lib/b.ts\<close> imports \<^verbatim>\<open>a.ts\<close> and a file under
  \<^verbatim>\<open>dist\<close>, and its \<^verbatim>\<open>main\<close> calls \<^verbatim>\<open>helper\<close> twice and itself once.
\<close>

definition exampleA :: SourceFile where
  "exampleA =
     \<lparr>getFilePath = ''/p/a.ts'', getFullText = ''A'', getImportTargets = [],
      getFunctions = [\<lparr>fnName = Some ''helper'', fnLine = 1, fnText = ''function helper() {}'', fnDocs = []\<rparr>],
      getVariableDeclarations = [],
      getClasses =
        [\<lparr>clsName = Some ''Greeter'', clsLine = 3, clsText = ''G'', clsDocs = [],
          clsMethods = [\<lparr>methodName = ''greet'', methodLine = 4, methodText = ''greet() { helper(); }'', methodDocs = []\<rparr>]\<rparr>],
      getCallExpressions =
        [\<lparr>ancestors = [OtherNode, OtherNode, MethodDeclarationNode (Some (Some ''Greeter'')) ''greet'', OtherNode],
          callee = Identifier ''helper'', symbolDecls = None\<rparr>]\<rparr>"

definition exampleB :: SourceFile where
  "exampleB =
     \<lparr>getFilePath = ''/p/src/lib/b.ts'', getFullText = ''B'',
      getImportTargets = [Some ''/p/a.ts'', Some ''/p/dist/c.js'', None],
      getFunctions = [\<lparr>fnName = Some ''main'', fnLine = 2, fnText = ''function main() { helper(); helper(); main(); }'', fnDocs = []\<rparr>],
      getVariableDeclarations = [],
      getClasses = [],
      getCallExpressions =
        [\<lparr>ancestors = [OtherNode, OtherNode, FunctionDeclarationNode (Some ''main''), OtherNode],
          callee = Identifier ''helper'', symbolDecls = None\<rparr>,
         \<lparr>ancestors = [OtherNode, OtherNode, FunctionDeclarationNode (Some ''main''), OtherNode],
          callee = Identifier ''helper'', symbolDecls = None\<rparr>,
         \<lparr>ancestors = [OtherNode, OtherNode, FunctionDeclarationNode (Some ''main''), OtherNode],
          callee = Identifier ''main'', symbolDecls = Some (''main'', [''/p/src/lib/b.ts''])\<rparr>]\<rparr>"

definition exampleVendored :: SourceFile where
  "exampleVendored =
     \<lparr>getFilePath = ''/p/node_modules/x/index.js'', getFullText = ''V'', getImportTargets = [],
      getFunctions = [\<lparr>fnName = Some ''helper'', fnLine = 1, fnText = ''function helper() {}'', fnDocs = []\<rparr>],
      getVariableDeclarations = [], getClasses = [], getCallExpressions = []\<rparr>"

definition exampleProject :: "SourceFile list" where
  "exampleProject = [exampleA, exampleVendored, exampleB]"

lemma exampleProject_graph:
  "analyze ''/p'' exampleProject =
     \<lparr>nodes =
        [\<lparr>nodeId = ''file:a.ts'', name = ''a.ts'', nodeType = File, path = ''a.ts'', line = None,
          parentId = None, content = Some ''A'', signature = None, docComment = None\<rparr>,
         \<lparr>nodeId = ''file:a.ts:fn:helper'', name = ''helper'', nodeType = Function, path = ''a.ts'',
          line = Some 1, parentId = Some ''file:a.ts'', content = Some ''function helper() {}'',
          signature = Some ''function helper()'', docComment = Some []\<rparr>,
         \<lparr>nodeId = ''file:a.ts:cls:Greeter'', name = ''Greeter'', nodeType = Class, path = ''a.ts'',
          line = Some 3, parentId = Some ''file:a.ts'', content = Some ''G'', signature = None,
          docComment = Some []\<rparr>,
         \<lparr>nodeId = ''file:a.ts:cls:Greeter:method:greet'', name = ''greet'', nodeType = Function,
          path = ''a.ts'', line = Some 4, parentId = Some ''file:a.ts:cls:Greeter'',
          content = Some ''greet() { helper(); }'', signature = Some ''greet()'',
          docComment = Some []\<rparr>,
         \<lparr>nodeId = ''folder:src/lib'', name = ''lib'', nodeType = Folder, path = ''src/lib'',
          line = None, parentId = None, content = None, signature = None, docComment = None\<rparr>,
         \<lparr>nodeId = ''folder:src'', name = ''src'', nodeType = Folder, path = ''src'', line = None,
          parentId = None, content = None, signature = None, docComment = None\<rparr>,
         \<lparr>nodeId = ''file:src/lib/b.ts'', name = ''b.ts'', nodeType = File, path = ''src/lib/b.ts'',
          line = None, parentId = Some ''folder:src/lib'', content = Some ''B'', signature = None,
          docComment = None\<rparr>,
         \<lparr>nodeId = ''file:src/lib/b.ts:fn:main'', name = ''main'', nodeType = Function,
          path = ''src/lib/b.ts'', line = Some 2, parentId = Some ''file:src/lib/b.ts'',
          content = Some ''function main() { helper(); helper(); main(); }'',
          signature = Some ''function main()'', docComment = Some []\<rparr>],
      edges =
        [\<lparr>fromId = ''file:a.ts'', toId = ''file:a.ts:fn:helper'', relation = Contains,
          callCount = Some 1\<rparr>,
         \<lparr>fromId = ''file:a.ts'', toId = ''file:a.ts:cls:Greeter'', relation = Contains,
          callCount = Some 1\<rparr>,
         \<lparr>fromId = ''file:a.ts:cls:Greeter'', toId = ''file:a.ts:cls:Greeter:method:greet'',
          relation = Contains, callCount = Some 1\<rparr>,
         \<lparr>fromId = ''folder:src'', toId = ''folder:src/lib'', relation = Contains,
          callCount = Some 1\<rparr>,
         \<lparr>fromId = ''folder:src/lib'', toId = ''file:src/lib/b.ts'', relation = Contains,
          callCount = Some 1\<rparr>,
         \<lparr>fromId = ''file:src/lib/b.ts'', toId = ''file:a.ts'', relation = Imports,
          callCount = Some 1\<rparr>,
         \<lparr>fromId = ''file:src/lib/b.ts'', toId = ''file:src/lib/b.ts:fn:main'', relation = Contains,
          callCount = Some 1\<rparr>,
         \<lparr>fromId = ''file:a.ts:cls:Greeter:method:greet'', toId = ''file:a.ts:fn:helper'',
          relation = Calls, callCount = Some 1\<rparr>,
         \<lparr>fromId = ''file:src/lib/b.ts:fn:main'', toId = ''file:a.ts:fn:helper'', relation = Calls,
          callCount = Some 2\<rparr>],
      rootPath = ''/p''\<rparr>"
  by code_simp

text \<open>
  A file whose class declares \<^verbatim>\<open>foo\<close> twice, once static and once not, and a state in
  which \<^verbatim>\<open>helper\<close> of \<^verbatim>\<open>a.ts\<close> is registered, with a variable of the same name.
\<close>

definition exampleTwoMethods :: SourceFile where
  "exampleTwoMethods =
     \<lparr>getFilePath = ''/p/c.ts'', getFullText = ''C'', getImportTargets = [], getFunctions = [],
      getVariableDeclarations = [],
      getClasses =
        [\<lparr>clsName = Some ''C'', clsLine = 1, clsText = ''class C { static foo() {} foo() {} }'',
          clsDocs = [],
          clsMethods =
            [\<lparr>methodName = ''foo'', methodLine = 2, methodText = ''static foo() {}'', methodDocs = []\<rparr>,
             \<lparr>methodName = ''foo'', methodLine = 3, methodText = ''foo() {}'', methodDocs = []\<rparr>]\<rparr>],
      getCallExpressions = []\<rparr>"

definition exampleRegistered :: AnalyzerState where
  "exampleRegistered =
     registerFunction ''file:a.ts'' ''a.ts''
       (0, \<lparr>fnName = Some ''helper'', fnLine = 1, fnText = ''function helper() {}'', fnDocs = []\<rparr>)
       initialState"

definition exampleVar :: VariableDecl where
  "exampleVar = \<lparr>varName = ''helper'', varLine = 5, varInit = Some (ArrowFunction, ''() => {}'')\<rparr>"

text \<open>A later file that declares \<^verbatim>\<open>helper\<close> again.\<close>

definition exampleLater :: SourceFile where
  "exampleLater =
     \<lparr>getFilePath = ''/p/z.ts'', getFullText = ''Z'', getImportTargets = [],
      getFunctions = [\<lparr>fnName = Some ''helper'', fnLine = 7, fnText = ''function helper() {}'', fnDocs = []\<rparr>],
      getVariableDeclarations = [], getClasses = [], getCallExpressions = []\<rparr>"


text \<open>
  \<^verbatim>\<open>a.ts\<close> declares \<^verbatim>\<open>run\<close> with two overload signatures and an implementation (one
  function node); \<^verbatim>\<open>b.ts\<close> imports it as a namespace and its own \<^verbatim>\<open>run\<close> calls
  \<^verbatim>\<open>A.run(1)\<close> once. The symbol of \<^verbatim>\<open>A.run\<close> has three declarations, all in \<^verbatim>\<open>a.ts\<close>.
\<close>

definition exampleOverloads :: SourceFile where
  "exampleOverloads =
     \<lparr>getFilePath = ''/p/a.ts'', getFullText = ''A'', getImportTargets = [],
      getFunctions = [\<lparr>fnName = Some ''run'', fnLine = 3, fnText = ''function run(x: any) {}'', fnDocs = []\<rparr>],
      getVariableDeclarations = [], getClasses = [], getCallExpressions = []\<rparr>"

definition exampleCaller :: SourceFile where
  "exampleCaller =
     \<lparr>getFilePath = ''/p/b.ts'', getFullText = ''B'', getImportTargets = [Some ''/p/a.ts''],
      getFunctions = [\<lparr>fnName = Some ''run'', fnLine = 2, fnText = ''function run() { A.run(1); }'', fnDocs = []\<rparr>],
      getVariableDeclarations = [], getClasses = [],
      getCallExpressions =
        [\<lparr>ancestors = [OtherNode, OtherNode, OtherNode, FunctionDeclarationNode (Some ''run''), OtherNode],
          callee = PropertyAccess ''A'' ''run'',
          symbolDecls = Some (''run'', [''/p/a.ts'', ''/p/a.ts'', ''/p/a.ts''])\<rparr>]\<rparr>"

section \<open>Edge referential integrity\<close>

text \<open>
  C1. For every edge of the graph \<^const>\<open>analyze\<close> returns, the edge's \<open>from\<close> id and its
  \<open>to\<close> id are ids of nodes of the returned node list: the assembly keeps an
  accumulated edge only when both endpoints are ids of live nodes, and drops the
  others without an error (the function is total and returns a graph).
\<close>

theorem C1_edge_endpoints_are_nodes:
  "\<forall>e \<in> set (edges (analyze root projectFiles)).
     fromId e \<in> nodeId ` set (nodes (analyze root projectFiles)) \<and>
     toId e \<in> nodeId ` set (nodes (analyze root projectFiles))"
  by (simp add: analyze_def assemble_def Let_def)

text \<open>
  In the small project the call edge from \<^verbatim>\<open>main\<close> to \<^verbatim>\<open>helper\<close> is returned, so both
  its ends are nodes; the import of the file under \<^verbatim>\<open>dist\<close> was accumulated and is
  not returned.
\<close>

theorem C1_edge_endpoints_are_nodes_witness:
  "\<lparr>fromId = ''file:src/lib/b.ts:fn:main'', toId = ''file:a.ts:fn:helper'', relation = Calls,
     callCount = Some 2\<rparr> \<in> set (edges (analyze ''/p'' exampleProject)) \<and>
   ''file:src/lib/b.ts:fn:main'' \<in> nodeId ` set (nodes (analyze ''/p'' exampleProject)) \<and>
   ''file:a.ts:fn:helper'' \<in> nodeId ` set (nodes (analyze ''/p'' exampleProject))"
proof -
  let ?e = "\<lparr>fromId = ''file:src/lib/b.ts:fn:main'', toId = ''file:a.ts:fn:helper'',
              relation = Calls, callCount = Some 2\<rparr>"
  have mem: "?e \<in> set (edges (analyze ''/p'' exampleProject))"
    by (simp add: exampleProject_graph)
  from C1_edge_endpoints_are_nodes [of "''/p''" exampleProject] mem
  have "fromId ?e \<in> nodeId ` set (nodes (analyze ''/p'' exampleProject)) \<and>
        toId ?e \<in> nodeId ` set (nodes (analyze ''/p'' exampleProject))"
    by (rule bspec)
  with mem show ?thesis by simp
qed

section \<open>Call edges\<close>

text \<open>
  C4. No \<open>calls\<close> edge of the returned graph has \<open>from\<close> equal to \<open>to\<close>: tier 1 adds
  an edge only to a registry target different from the caller, tier 2 only to a
  candidate different from the caller, and pass 1 adds no call edge at all.
\<close>

theorem C4_no_self_call_edge:
  "\<forall>e \<in> set (edges (analyze root projectFiles)). relation e = Calls \<longrightarrow> fromId e \<noteq> toId e"
proof -
  obtain s1 s2 where s:
    "s1 = pass1 root (filter (\<lambda>sf. \<not> isRemoved sf) projectFiles) initialState"
    "s2 = pass2 root (filter (\<lambda>sf. \<not> isRemoved sf) projectFiles) s1"
    "analyze root projectFiles = assemble root s2"
    by (rule analyze_states)
  have "\<forall>(k, e) \<in> set (edgesMap s1). relation e = Calls \<longrightarrow> fromId e \<noteq> toId e"
    using pass1_structural [of root] unfolding s(1) by fastforce
  then have "\<forall>(k, e) \<in> set (edgesMap s2). relation e = Calls \<longrightarrow> fromId e \<noteq> toId e"
    unfolding s(2)
    by (rule steps_edges_inv [OF pass2_steps]) (simp add: callEdge_def)
  with edges_subset [of root s2] show ?thesis
    unfolding s(3) by fastforce
qed

text \<open>
  In the small project \<^verbatim>\<open>main\<close> calls itself once and \<^verbatim>\<open>helper\<close> twice: the call edge
  to \<^verbatim>\<open>helper\<close> is returned, and no call edge ends at \<^verbatim>\<open>main\<close>.
\<close>

theorem C4_no_self_call_edge_witness:
  "\<lparr>fromId = ''file:src/lib/b.ts:fn:main'', toId = ''file:a.ts:fn:helper'', relation = Calls,
     callCount = Some 2\<rparr> \<in> set (edges (analyze ''/p'' exampleProject)) \<and>
   ''file:src/lib/b.ts:fn:main'' \<noteq> ''file:a.ts:fn:helper'' \<and>
   ''file:src/lib/b.ts:fn:main'' \<notin>
     toId ` set (filter (\<lambda>e. relation e = Calls) (edges (analyze ''/p'' exampleProject)))"
proof -
  let ?e = "\<lparr>fromId = ''file:src/lib/b.ts:fn:main'', toId = ''file:a.ts:fn:helper'',
              relation = Calls, callCount = Some 2\<rparr>"
  have mem: "?e \<in> set (edges (analyze ''/p'' exampleProject))"
    by (simp add: exampleProject_graph)
  from C4_no_self_call_edge [of "''/p''" exampleProject] mem
  have "relation ?e = Calls \<longrightarrow> fromId ?e \<noteq> toId ?e"
    by (rule bspec)
  then have "''file:src/lib/b.ts:fn:main'' \<noteq> ''file:a.ts:fn:helper''"
    by simp
  moreover have "''file:src/lib/b.ts:fn:main'' \<notin>
     toId ` set (filter (\<lambda>e. relation e = Calls) (edges (analyze ''/p'' exampleProject)))"
    by (simp add: exampleProject_graph)
  ultimately show ?thesis using mem by blast
qed

section \<open>The count an edge carries\<close>

text \<open>
  C3 says that only \<open>calls\<close> edges carry a \<open>callCount\<close>. The engine stores every new
  edge with \<open>callCount: 1\<close>, whatever its relation: in the small project the
  \<open>contains\<close> edge from \<^verbatim>\<open>a.ts\<close> to \<^verbatim>\<open>helper\<close> is returned with the count 1.
\<close>

theorem C3_contains_edge_carries_count:
  "\<lparr>fromId = ''file:a.ts'', toId = ''file:a.ts:fn:helper'', relation = Contains,
     callCount = Some 1\<rparr> \<in> set (edges (analyze ''/p'' exampleProject))"
  by (simp add: exampleProject_graph)

text \<open>
  C3, amended. Every edge of the returned graph carries a \<open>callCount\<close> of at least 1,
  and on an edge whose relation is not \<open>calls\<close> the count is exactly 1: only a
  repeated call edge is ever counted up.
\<close>

theorem C3_every_edge_carries_count:
  "\<forall>e \<in> set (edges (analyze root projectFiles)).
     (\<exists>c. callCount e = Some c \<and> 1 \<le> c) \<and> (relation e \<noteq> Calls \<longrightarrow> callCount e = Some 1)"
proof -
  obtain s1 s2 where s:
    "s1 = pass1 root (filter (\<lambda>sf. \<not> isRemoved sf) projectFiles) initialState"
    "s2 = pass2 root (filter (\<lambda>sf. \<not> isRemoved sf) projectFiles) s1"
    "analyze root projectFiles = assemble root s2"
    by (rule analyze_states)
  have "countsKept (edgesMap s1)"
    unfolding s(1) by (rule steps_countsKept [OF pass1_steps]) (simp add: countsKept_def initialState_def)
  then have kept: "countsKept (edgesMap s2)"
    unfolding s(2) by (rule steps_countsKept [OF pass2_steps])
  show ?thesis
    unfolding s(3)
  proof
    fix e assume "e \<in> set (edges (assemble root s2))"
    with edges_subset [of root s2] obtain k where "(k, e) \<in> set (edgesMap s2)"
      by force
    with kept
    show "(\<exists>c. callCount e = Some c \<and> 1 \<le> c) \<and> (relation e \<noteq> Calls \<longrightarrow> callCount e = Some 1)"
      unfolding countsKept_def by blast
  qed
qed

text \<open>The import edge of the small project, by the theorem: it is returned, so its count is 1.\<close>

theorem C3_every_edge_carries_count_witness:
  "\<lparr>fromId = ''file:src/lib/b.ts'', toId = ''file:a.ts'', relation = Imports,
     callCount = Some 1\<rparr> \<in> set (edges (analyze ''/p'' exampleProject)) \<and>
   callCount \<lparr>fromId = ''file:src/lib/b.ts'', toId = ''file:a.ts'', relation = Imports,
     callCount = Some 1\<rparr> = Some 1"
proof -
  let ?e = "\<lparr>fromId = ''file:src/lib/b.ts'', toId = ''file:a.ts'', relation = Imports,
              callCount = Some 1\<rparr>"
  have mem: "?e \<in> set (edges (analyze ''/p'' exampleProject))"
    by (simp add: exampleProject_graph)
  from C3_every_edge_carries_count [of "''/p''" exampleProject] mem
  have "(\<exists>c. callCount ?e = Some c \<and> 1 \<le> c) \<and> (relation ?e \<noteq> Calls \<longrightarrow> callCount ?e = Some 1)"
    by (rule bspec)
  then have "callCount ?e = Some 1" by simp
  with mem show ?thesis by blast
qed

section \<open>Parents\<close>

text \<open>
  C7 says that every node has its \<open>parentId\<close> set to its immediate container, a
  folder's being its parent folder. \<^verbatim>\<open>_addFolderNodes\<close> stores a folder node without
  a \<open>parentId\<close>: in the small project the folder \<^verbatim>\<open>src/lib\<close> is returned with no
  parent, next to the node of the folder \<^verbatim>\<open>src\<close> that contains it.
\<close>

theorem C7_nested_folder_has_no_parent:
  "\<lparr>nodeId = ''folder:src/lib'', name = ''lib'', nodeType = Folder, path = ''src/lib'',
     line = None, parentId = None, content = None, signature = None, docComment = None\<rparr>
     \<in> set (nodes (analyze ''/p'' exampleProject)) \<and>
   ''folder:src'' \<in> nodeId ` set (nodes (analyze ''/p'' exampleProject))"
  by (simp add: exampleProject_graph)

text \<open>
  C7, amended. In the returned graph a folder node has no \<open>parentId\<close> (its place in
  the tree is recorded by the \<open>contains\<close> edge only); a file node's \<open>parentId\<close> is the
  folder of the directory of its path, and absent when that directory is \<^verbatim>\<open>.\<close>; a
  class node's is its file; a function node's is its file when its id is
  \<^verbatim>\<open>file:<path>:fn:<name>\<close> and its class when its id is
  \<^verbatim>\<open>file:<path>:cls:<class>:method:<name>\<close>. No node of type \<open>component\<close> is produced.
\<close>

theorem C7_parent_as_stored:
  "\<forall>n \<in> set (nodes (analyze root projectFiles)).
     (case nodeType n of
        Folder \<Rightarrow> parentId n = None
      | File \<Rightarrow>
          parentId n =
            (if normSlashes (dirname (path n)) = ''.'' then None
             else Some (''folder:'' @ normSlashes (dirname (path n))))
      | Function \<Rightarrow>
          parentId n = Some (''file:'' @ path n) \<and> nodeId n = ''file:'' @ path n @ '':fn:'' @ name n \<or>
          (\<exists>c. parentId n = Some (''file:'' @ path n @ '':cls:'' @ c) \<and>
                nodeId n = ''file:'' @ path n @ '':cls:'' @ c @ '':method:'' @ name n)
      | Class \<Rightarrow> parentId n = Some (''file:'' @ path n)
      | Component \<Rightarrow> False)"
proof
  fix n assume "n \<in> set (nodes (analyze root projectFiles))"
  then obtain sf where "nodeOfFile root sf n"
    by (rule analyze_node_origin)
  then show "case nodeType n of
        Folder \<Rightarrow> parentId n = None
      | File \<Rightarrow>
          parentId n =
            (if normSlashes (dirname (path n)) = ''.'' then None
             else Some (''folder:'' @ normSlashes (dirname (path n))))
      | Function \<Rightarrow>
          parentId n = Some (''file:'' @ path n) \<and> nodeId n = ''file:'' @ path n @ '':fn:'' @ name n \<or>
          (\<exists>c. parentId n = Some (''file:'' @ path n @ '':cls:'' @ c) \<and>
                nodeId n = ''file:'' @ path n @ '':cls:'' @ c @ '':method:'' @ name n)
      | Class \<Rightarrow> parentId n = Some (''file:'' @ path n)
      | Component \<Rightarrow> False"
    by (cases "nodeType n") (auto simp: nodeOfFile_def Let_def)
qed

text \<open>The file node of \<^verbatim>\<open>src/lib/b.ts\<close> in the small project, by the theorem.\<close>

theorem C7_parent_as_stored_witness:
  "\<lparr>nodeId = ''file:src/lib/b.ts'', name = ''b.ts'', nodeType = File, path = ''src/lib/b.ts'',
     line = None, parentId = Some ''folder:src/lib'', content = Some ''B'', signature = None,
     docComment = None\<rparr> \<in> set (nodes (analyze ''/p'' exampleProject)) \<and>
   Some ''folder:src/lib'' = Some (''folder:'' @ normSlashes (dirname ''src/lib/b.ts''))"
proof -
  let ?n = "\<lparr>nodeId = ''file:src/lib/b.ts'', name = ''b.ts'', nodeType = File,
              path = ''src/lib/b.ts'', line = None, parentId = Some ''folder:src/lib'',
              content = Some ''B'', signature = None, docComment = None\<rparr>"
  have mem: "?n \<in> set (nodes (analyze ''/p'' exampleProject))"
    by (simp add: exampleProject_graph)
  have dir: "normSlashes (dirname ''src/lib/b.ts'') \<noteq> ''.''"
    by (simp add: dirname_def normSlashes_def)
  from C7_parent_as_stored [of "''/p''" exampleProject] mem
  have "case nodeType ?n of
        Folder \<Rightarrow> parentId ?n = None
      | File \<Rightarrow>
          parentId ?n =
            (if normSlashes (dirname (path ?n)) = ''.'' then None
             else Some (''folder:'' @ normSlashes (dirname (path ?n))))
      | Function \<Rightarrow>
          parentId ?n = Some (''file:'' @ path ?n) \<and> nodeId ?n = ''file:'' @ path ?n @ '':fn:'' @ name ?n \<or>
          (\<exists>c. parentId ?n = Some (''file:'' @ path ?n @ '':cls:'' @ c) \<and>
                nodeId ?n = ''file:'' @ path ?n @ '':cls:'' @ c @ '':method:'' @ name ?n)
      | Class \<Rightarrow> parentId ?n = Some (''file:'' @ path ?n)
      | Component \<Rightarrow> False"
    by (rule bspec)
  with dir have "Some ''folder:src/lib'' = Some (''folder:'' @ normSlashes (dirname ''src/lib/b.ts''))"
    by (simp del: append.simps)
  with mem show ?thesis by blast
qed

section \<open>Filter soundness\<close>

text \<open>
  C8. A file the source set filter removes (its path contains one of the ignored
  directory segments, or its lower-cased extension is in the binary list, or it ends
  in \<^verbatim>\<open>.min.js\<close> or \<^verbatim>\<open>.min.css\<close>) contributes nothing: the graph is the graph of the
  project without it; every file, function and class node of the graph has the
  relative path of a file that was not removed; and every edge joins two nodes of
  that graph.
\<close>

theorem C8_removed_file_contributes_nothing:
  assumes "isRemoved sf"
  shows "analyze root (xs @ sf # ys) = analyze root (xs @ ys) \<and>
    (\<forall>n \<in> set (nodes (analyze root (xs @ sf # ys))).
       nodeType n \<noteq> Folder \<longrightarrow>
       (\<exists>sf' \<in> set (xs @ ys). \<not> isRemoved sf' \<and> path n = relativePathOf root (getFilePath sf'))) \<and>
    (\<forall>e \<in> set (edges (analyze root (xs @ sf # ys))).
       fromId e \<in> nodeId ` set (nodes (analyze root (xs @ ys))) \<and>
       toId e \<in> nodeId ` set (nodes (analyze root (xs @ ys))))"
proof -
  have same: "analyze root (xs @ sf # ys) = analyze root (xs @ ys)"
    using assms by (simp add: analyze_def)
  have origin: "\<exists>sf' \<in> set (xs @ ys). \<not> isRemoved sf' \<and> path n = relativePathOf root (getFilePath sf')"
    if "n \<in> set (nodes (analyze root (xs @ ys)))" "nodeType n \<noteq> Folder" for n
    using analyze_node_origin [OF that(1)] nodeOfFile_path that(2) by metis
  have ends: "\<forall>e \<in> set (edges (analyze root (xs @ ys))).
       fromId e \<in> nodeId ` set (nodes (analyze root (xs @ ys))) \<and>
       toId e \<in> nodeId ` set (nodes (analyze root (xs @ ys)))"
    by (simp add: analyze_def assemble_def Let_def)
  from same origin ends show ?thesis by simp
qed

text \<open>
  The vendored file of the small project: it is removed, the graph is that of the
  other two files, and no node has its path.
\<close>

theorem C8_removed_file_contributes_nothing_witness:
  "isRemoved exampleVendored \<and>
   analyze ''/p'' ([exampleA] @ exampleVendored # [exampleB]) = analyze ''/p'' ([exampleA] @ [exampleB]) \<and>
   ''node_modules/x/index.js'' \<notin> path ` set (nodes (analyze ''/p'' exampleProject)) \<and>
   isRemoved (exampleVendored\<lparr>getFilePath := ''/p/src/app.min.js''\<rparr>)"
proof -
  have removed: "isRemoved exampleVendored"
    by code_simp
  have minified: "isRemoved (exampleVendored\<lparr>getFilePath := ''/p/src/app.min.js''\<rparr>)"
    by code_simp
  from C8_removed_file_contributes_nothing [OF removed, of "''/p''" "[exampleA]" "[exampleB]"]
  have "analyze ''/p'' ([exampleA] @ exampleVendored # [exampleB]) = analyze ''/p'' ([exampleA] @ [exampleB])"
    by (rule conjunct1)
  moreover have "''node_modules/x/index.js'' \<notin> path ` set (nodes (analyze ''/p'' exampleProject))"
    by (simp add: exampleProject_graph)
  ultimately show ?thesis using removed minified by blast
qed

section \<open>Node insertion\<close>

text \<open>
  C5 says that a later insertion at an id already in the node map is a no-op, for
  every kind of node. Only the variable path tests the map first. A class that
  declares \<^verbatim>\<open>foo\<close> at line 2 (static) and again at line 3 has one method node in the
  returned graph, and it is the one of line 3.
\<close>

theorem C5_later_method_replaces_node:
  "map (\<lambda>n. (nodeId n, line n)) (nodes (analyze ''/p'' [exampleTwoMethods])) =
     [(''file:c.ts'', None), (''file:c.ts:cls:C'', Some 1), (''file:c.ts:cls:C:method:foo'', Some 3)] \<and>
   map methodLine (concat (map clsMethods (getClasses exampleTwoMethods))) = [2, 3]"
  by code_simp

lemma map_of_setNode: "map_of (nodesMap (setNode n s)) (nodeId n) = Some n"
  by (simp add: setNode_def update_conv')

lemma registerMethod_other:
  "k \<noteq> clsId @ '':method:'' @ methodName m \<Longrightarrow>
   map_of (nodesMap (registerMethod clsId clsNm rel m s)) k = map_of (nodesMap s) k"
  by (simp add: registerMethod_def Let_def withEdge_def setNode_def setRegistry_def update_conv' methodNode_def)

lemma fold_registerMethod_other:
  "map_of (nodesMap (fold (registerMethod clsId clsNm rel) ms s)) clsId = map_of (nodesMap s) clsId"
  by (induction ms arbitrary: s) (simp_all add: registerMethod_other)

text \<open>
  C5, amended. Node ids are unique in the returned graph. Inserting a
  variable-initializer function at an id already in the node map is a no-op, and so
  is adding a folder whose path has been seen. File, function-declaration, class and
  method insertion store their node under its id unconditionally: after the
  insertion the map holds the inserted node there, whatever it held before.
\<close>

theorem C5_node_insertion:
  "distinct (map nodeId (nodes (analyze root projectFiles))) \<and>
   (has (nodesMap s) (fileNodeId @ '':fn:'' @ varName v) \<longrightarrow>
      registerVariable fileNodeId relativePath v s = s) \<and>
   (currentDir \<in> set (folderPaths s) \<longrightarrow> addFolder currentDir s = s) \<and>
   map_of (nodesMap (addFileNode relativePath sf s)) (nodeId (fileNode relativePath sf)) =
     Some (fileNode relativePath sf) \<and>
   map_of (nodesMap (registerFunction fileNodeId relativePath (idx, fn) s))
     (nodeId (functionNode fileNodeId relativePath (nameOr (fnName fn) (''anonymous_'' @ showNat idx)) fn)) =
     Some (functionNode fileNodeId relativePath (nameOr (fnName fn) (''anonymous_'' @ showNat idx)) fn) \<and>
   map_of (nodesMap (registerClass fileNodeId relativePath (idx, cls) s))
     (nodeId (classNode fileNodeId relativePath (nameOr (clsName cls) (''AnonymousClass_'' @ showNat idx)) cls)) =
     Some (classNode fileNodeId relativePath (nameOr (clsName cls) (''AnonymousClass_'' @ showNat idx)) cls) \<and>
   map_of (nodesMap (registerMethod clsId clsNm relativePath m s)) (nodeId (methodNode clsId relativePath m)) =
     Some (methodNode clsId relativePath m)"
proof (intro conjI)
  show "distinct (map nodeId (nodes (analyze root projectFiles)))"
  proof -
    obtain s1 s2 where s:
      "s1 = pass1 root (filter (\<lambda>sf. \<not> isRemoved sf) projectFiles) initialState"
      "s2 = pass2 root (filter (\<lambda>sf. \<not> isRemoved sf) projectFiles) s1"
      "analyze root projectFiles = assemble root s2"
      "nodesMap s2 = nodesMap s1"
      by (rule analyze_states)
    have "distinct (map fst (nodesMap s1))"
      unfolding s(1) by (rule steps_distinct_nodes [OF pass1_steps]) (simp add: initialState_def)
    moreover have "\<forall>(k, n) \<in> set (nodesMap s1). k = nodeId n"
      using pass1_nodes [of root] unfolding s(1) by fastforce
    ultimately show ?thesis
      unfolding s(3) nodes_assemble s(4) by (simp add: nodes_keyed)
  qed
next
  show "has (nodesMap s) (fileNodeId @ '':fn:'' @ varName v) \<longrightarrow>
      registerVariable fileNodeId relativePath v s = s"
    by (simp add: registerVariable_def Let_def split: option.splits prod.splits)
next
  show "currentDir \<in> set (folderPaths s) \<longrightarrow> addFolder currentDir s = s"
    by (simp add: addFolder_def)
next
  show "map_of (nodesMap (addFileNode relativePath sf s)) (nodeId (fileNode relativePath sf)) =
     Some (fileNode relativePath sf)"
    by (simp add: addFileNode_def Let_def withEdge_def map_of_setNode)
next
  show "map_of (nodesMap (registerFunction fileNodeId relativePath (idx, fn) s))
     (nodeId (functionNode fileNodeId relativePath (nameOr (fnName fn) (''anonymous_'' @ showNat idx)) fn)) =
     Some (functionNode fileNodeId relativePath (nameOr (fnName fn) (''anonymous_'' @ showNat idx)) fn)"
    by (simp add: registerFunction_def Let_def withEdge_def map_of_setNode)
next
  show "map_of (nodesMap (registerClass fileNodeId relativePath (idx, cls) s))
     (nodeId (classNode fileNodeId relativePath (nameOr (clsName cls) (''AnonymousClass_'' @ showNat idx)) cls)) =
     Some (classNode fileNodeId relativePath (nameOr (clsName cls) (''AnonymousClass_'' @ showNat idx)) cls)"
    unfolding registerClass_def prod.case Let_def
    using fold_registerMethod_other
      [of "fileNodeId @ '':cls:'' @ nameOr (clsName cls) (''AnonymousClass_'' @ showNat idx)"]
    by (simp add: withEdge_def setNode_def update_conv' classNode_def)
next
  show "map_of (nodesMap (registerMethod clsId clsNm relativePath m s)) (nodeId (methodNode clsId relativePath m)) =
     Some (methodNode clsId relativePath m)"
    by (simp add: registerMethod_def Let_def withEdge_def map_of_setNode)
qed


text \<open>
  After \<^verbatim>\<open>function helper\<close> of \<^verbatim>\<open>a.ts\<close> is registered, registering
  \<^verbatim>\<open>const helper = () => {}\<close> of the same file changes nothing.
\<close>

theorem C5_node_insertion_witness:
  "has (nodesMap exampleRegistered) (''file:a.ts'' @ '':fn:'' @ varName exampleVar) \<and>
   registerVariable ''file:a.ts'' ''a.ts'' exampleVar exampleRegistered = exampleRegistered"
proof -
  have present: "has (nodesMap exampleRegistered) (''file:a.ts'' @ '':fn:'' @ varName exampleVar)"
    by code_simp
  have "registerVariable ''file:a.ts'' ''a.ts'' exampleVar exampleRegistered = exampleRegistered"
    by (rule C5_node_insertion [THEN conjunct2, THEN conjunct1, THEN mp, OF present])
  with present show ?thesis by blast
qed

section \<open>The name registry\<close>

text \<open>
  C6. The registry is last-writer-wins. Let \<open>B\<close> be a file that pass 1 processes and
  that declares a top-level callable of the unqualified name \<open>N\<close> (a function
  declaration, a class, or a variable initialised with a function whose node id is
  still free when \<open>B\<close> is reached), and let no file processed after \<open>B\<close> write the
  key \<open>N\<close>. Then, whatever the files before \<open>B\<close> declared, after pass 1 the registry
  maps \<open>N\<close> to the node of \<open>B\<close> (its class of that name if it has one, else its
  function), that node is in the node map, and tier 1 returns it for every other
  caller. Call resolution follows: in any state with this registry and node map
  (pass 2 changes neither), \<^const>\<open>traceCall\<close> on a call whose called name is \<open>N\<close> and whose
  enclosing function is found and is not that node does exactly one thing, it adds
  the calls edge from the enclosing function to the node of \<open>B\<close>. And for every
  such call in a processed file of the project, the graph \<^const>\<open>analyze\<close> returns holds
  a calls edge stored under the key of that caller and the node of \<open>B\<close>: it is the
  edge from that caller to the node of \<open>B\<close> whenever the first byte of the key's arrow
  occurs in neither \<open>from\<close> id (two pairs of ids spell the same key only through
  an arrow inside an id).
\<close>

theorem C6_registry_last_writer_wins:
  fixes root B N pre post
  defines "fileNodeId \<equiv> ''file:'' @ relativePathOf root (getFilePath B)"
  defines "target \<equiv>
     (if N \<in> set (classNames B) then fileNodeId @ '':cls:'' @ N else fileNodeId @ '':fn:'' @ N)"
  defines "s1 \<equiv> pass1 root (pre @ B # post) initialState"
  assumes processed: "\<not> isSkipped (relativePathOf root (getFilePath B))"
    and unqualified: "CHR ''.'' \<notin> set N"
    and declared:
      "N \<in> set (functionNames B) \<or> N \<in> set (classNames B) \<or>
       N \<in> set (variableFunctionNames B) \<and>
         \<not> has (nodesMap (pass1 root pre initialState)) (fileNodeId @ '':fn:'' @ N)"
    and last:
      "\<forall>F \<in> set post. isSkipped (relativePathOf root (getFilePath F)) \<or> N \<notin> set (registryKeys F)"
  shows "fnRegistry s1 N = Some target \<and>
         has (nodesMap s1) target \<and>
         (\<forall>callerFnId. callerFnId \<noteq> target \<longrightarrow> registryTarget s1 N callerFnId = Some target) \<and>
         (\<forall>s fileId callExpr callerFnId.
            fnRegistry s = fnRegistry s1 \<and> nodesMap s = nodesMap s1 \<and>
            calledNameOf (fnRegistry s) (callee callExpr) = Some N \<and> N \<noteq> [] \<and>
            findContainingFunctionId (ancestors callExpr) fileId (nodesMap s) = Some callerFnId \<and>
            callerFnId \<noteq> target \<longrightarrow>
            traceCall root fileId callExpr s = withEdge callerFnId target Calls s) \<and>
         (\<forall>projectFiles F callExpr callerFnId.
            filter (\<lambda>sf. \<not> isRemoved sf) projectFiles = pre @ B # post \<and>
            F \<in> set (pre @ B # post) \<and> \<not> isSkipped (relativePathOf root (getFilePath F)) \<and>
            callExpr \<in> set (getCallExpressions F) \<and>
            calledNameOf (fnRegistry s1) (callee callExpr) = Some N \<and> N \<noteq> [] \<and>
            findContainingFunctionId (ancestors callExpr)
              (''file:'' @ relativePathOf root (getFilePath F)) (nodesMap s1) = Some callerFnId \<and>
            callerFnId \<noteq> target \<longrightarrow>
            (\<exists>e \<in> set (edges (analyze root projectFiles)).
               relation e = Calls \<and>
               edgeKey (fromId e) (toId e) Calls = edgeKey callerFnId target Calls \<and>
               (CHR 0xE2 \<notin> set (fromId e) \<and> CHR 0xE2 \<notin> set callerFnId \<longrightarrow>
                  fromId e = callerFnId \<and> toId e = target)))"
proof -
  define s where "s = pass1 root pre initialState"
  have split: "s1 = pass1 root post (pass1File root B s)"
    by (simp add: pass1_def s_def s1_def)
  from pass1File_registers [OF processed refl fileNodeId_def [THEN meta_eq_to_obj_eq] unqualified, where s = s]
    declared
  have "registered N target (pass1File root B s)"
    unfolding target_def s_def by auto
  then have reg: "registered N target s1"
    unfolding split registered_def
    using pass1_registry_other [OF last] pass1_has_mono by simp
  have nonempty: "target \<noteq> []"
    by (simp add: target_def fileNodeId_def)
  have tier1: "registryTarget s' N callerFnId = Some target"
    if "fnRegistry s' = fnRegistry s1" "nodesMap s' = nodesMap s1" "callerFnId \<noteq> target"
    for s' callerFnId
    using that reg nonempty by (simp add: registered_def registryTarget_def)
  have registry: "fnRegistry s1 N = Some target" and node: "has (nodesMap s1) target"
    using reg by (simp_all add: registered_def)
  have resolve: "\<forall>callerFnId. callerFnId \<noteq> target \<longrightarrow> registryTarget s1 N callerFnId = Some target"
    by (simp add: tier1)
  have step: "\<forall>s fileId callExpr callerFnId.
      fnRegistry s = fnRegistry s1 \<and> nodesMap s = nodesMap s1 \<and>
      calledNameOf (fnRegistry s) (callee callExpr) = Some N \<and> N \<noteq> [] \<and>
      findContainingFunctionId (ancestors callExpr) fileId (nodesMap s) = Some callerFnId \<and>
      callerFnId \<noteq> target \<longrightarrow>
      traceCall root fileId callExpr s = withEdge callerFnId target Calls s"
  proof (intro allI impI, elim conjE)
    fix s' :: AnalyzerState and fileId :: string and callExpr :: CallExpr and callerFnId :: string
    assume same: "fnRegistry s' = fnRegistry s1" "nodesMap s' = nodesMap s1"
      and name: "calledNameOf (fnRegistry s') (callee callExpr) = Some N" "N \<noteq> []"
      and caller: "findContainingFunctionId (ancestors callExpr) fileId (nodesMap s') = Some callerFnId"
      and other: "callerFnId \<noteq> target"
    from name caller tier1 [OF same other]
    show "traceCall root fileId callExpr s' = withEdge callerFnId target Calls s'"
      by (rule tier1_adds_edge)
  qed
  have run: "\<forall>projectFiles F callExpr callerFnId.
      filter (\<lambda>sf. \<not> isRemoved sf) projectFiles = pre @ B # post \<and>
      F \<in> set (pre @ B # post) \<and> \<not> isSkipped (relativePathOf root (getFilePath F)) \<and>
      callExpr \<in> set (getCallExpressions F) \<and>
      calledNameOf (fnRegistry s1) (callee callExpr) = Some N \<and> N \<noteq> [] \<and>
      findContainingFunctionId (ancestors callExpr)
        (''file:'' @ relativePathOf root (getFilePath F)) (nodesMap s1) = Some callerFnId \<and>
      callerFnId \<noteq> target \<longrightarrow>
      (\<exists>e \<in> set (edges (analyze root projectFiles)).
         relation e = Calls \<and>
         edgeKey (fromId e) (toId e) Calls = edgeKey callerFnId target Calls \<and>
         (CHR 0xE2 \<notin> set (fromId e) \<and> CHR 0xE2 \<notin> set callerFnId \<longrightarrow>
            fromId e = callerFnId \<and> toId e = target))"
  proof (intro allI impI, elim conjE)
    fix projectFiles :: "SourceFile list" and F :: SourceFile and callExpr :: CallExpr
      and callerFnId :: string
    assume files: "filter (\<lambda>sf. \<not> isRemoved sf) projectFiles = pre @ B # post"
      and F: "F \<in> set (pre @ B # post)" "\<not> isSkipped (relativePathOf root (getFilePath F))"
      and call: "callExpr \<in> set (getCallExpressions F)"
      and name: "calledNameOf (fnRegistry s1) (callee callExpr) = Some N" "N \<noteq> []"
      and caller: "findContainingFunctionId (ancestors callExpr)
          (''file:'' @ relativePathOf root (getFilePath F)) (nodesMap s1) = Some callerFnId"
      and other: "callerFnId \<noteq> target"
    from files F call name [unfolded s1_def] caller [unfolded s1_def]
      tier1 [OF refl refl other, unfolded s1_def]
    show "\<exists>e \<in> set (edges (analyze root projectFiles)).
        relation e = Calls \<and> edgeKey (fromId e) (toId e) Calls = edgeKey callerFnId target Calls \<and>
        (CHR 0xE2 \<notin> set (fromId e) \<and> CHR 0xE2 \<notin> set callerFnId \<longrightarrow>
           fromId e = callerFnId \<and> toId e = target)"
      by (rule analyze_wires_call)
  qed
  from registry node resolve step run show ?thesis
    by (intro conjI)
qed


text \<open>
  \<^verbatim>\<open>a.ts\<close> and the later \<^verbatim>\<open>z.ts\<close> both declare \<^verbatim>\<open>helper\<close>: after \<^verbatim>\<open>a.ts\<close> alone the
  registry points at the node of \<^verbatim>\<open>a.ts\<close>, after all three files at the node of
  \<^verbatim>\<open>z.ts\<close>. The call \<^verbatim>\<open>helper()\<close> in \<^verbatim>\<open>main\<close> of \<^verbatim>\<open>b.ts\<close>, which imports \<^verbatim>\<open>a.ts\<close>, is wired
  to the node of \<^verbatim>\<open>z.ts\<close>, and so is the call in \<^verbatim>\<open>a.ts\<close> itself.
\<close>

theorem C6_registry_last_writer_wins_witness:
  "fnRegistry (pass1 ''/p'' [exampleA] initialState) ''helper'' = Some ''file:a.ts:fn:helper'' \<and>
   fnRegistry (pass1 ''/p'' ([exampleA] @ exampleLater # [exampleB]) initialState) ''helper'' =
     Some ''file:z.ts:fn:helper'' \<and>
   registryTarget (pass1 ''/p'' ([exampleA] @ exampleLater # [exampleB]) initialState) ''helper''
     ''file:src/lib/b.ts:fn:main'' = Some ''file:z.ts:fn:helper'' \<and>
   traceCall ''/p'' ''file:src/lib/b.ts''
     \<lparr>ancestors = [OtherNode, OtherNode, FunctionDeclarationNode (Some ''main''), OtherNode],
      callee = Identifier ''helper'', symbolDecls = None\<rparr>
     (pass1 ''/p'' ([exampleA] @ exampleLater # [exampleB]) initialState) =
   withEdge ''file:src/lib/b.ts:fn:main'' ''file:z.ts:fn:helper'' Calls
     (pass1 ''/p'' ([exampleA] @ exampleLater # [exampleB]) initialState) \<and>
   (\<exists>e \<in> set (edges (analyze ''/p'' [exampleA, exampleLater, exampleB])).
      relation e = Calls \<and>
      edgeKey (fromId e) (toId e) Calls =
        edgeKey ''file:src/lib/b.ts:fn:main'' ''file:z.ts:fn:helper'' Calls) \<and>
   \<lparr>fromId = ''file:src/lib/b.ts:fn:main'', toId = ''file:z.ts:fn:helper'', relation = Calls,
     callCount = Some 2\<rparr> \<in> set (edges (analyze ''/p'' [exampleA, exampleLater, exampleB])) \<and>
   \<lparr>fromId = ''file:a.ts:cls:Greeter:method:greet'', toId = ''file:z.ts:fn:helper'', relation = Calls,
     callCount = Some 1\<rparr> \<in> set (edges (analyze ''/p'' [exampleA, exampleLater, exampleB]))"
proof -
  let ?s1 = "pass1 ''/p'' ([exampleA] @ exampleLater # [exampleB]) initialState"
  let ?call = "\<lparr>ancestors = [OtherNode, OtherNode, FunctionDeclarationNode (Some ''main''), OtherNode],
                callee = Identifier ''helper'', symbolDecls = None\<rparr>"
  have processed: "\<not> isSkipped (relativePathOf ''/p'' (getFilePath exampleLater))"
    by code_simp
  have unqualified: "CHR ''.'' \<notin> set ''helper''"
    by simp
  have "''helper'' \<in> set (functionNames exampleLater)"
    by code_simp
  then have declared:
    "''helper'' \<in> set (functionNames exampleLater) \<or> ''helper'' \<in> set (classNames exampleLater) \<or>
     ''helper'' \<in> set (variableFunctionNames exampleLater) \<and>
       \<not> has (nodesMap (pass1 ''/p'' [exampleA] initialState))
           ((''file:'' @ relativePathOf ''/p'' (getFilePath exampleLater)) @ '':fn:'' @ ''helper'')"
    by (rule disjI1)
  have last: "\<forall>F \<in> set [exampleB].
      isSkipped (relativePathOf ''/p'' (getFilePath F)) \<or> ''helper'' \<notin> set (registryKeys F)"
    by code_simp
  have target: "(if ''helper'' \<in> set (classNames exampleLater)
       then (''file:'' @ relativePathOf ''/p'' (getFilePath exampleLater)) @ '':cls:'' @ ''helper''
       else (''file:'' @ relativePathOf ''/p'' (getFilePath exampleLater)) @ '':fn:'' @ ''helper'') =
      ''file:z.ts:fn:helper''"
    by code_simp
  have earlier: "fnRegistry (pass1 ''/p'' [exampleA] initialState) ''helper'' = Some ''file:a.ts:fn:helper''"
    by code_simp
  have kept: "filter (\<lambda>sf. \<not> isRemoved sf) [exampleA, exampleLater, exampleB] =
      [exampleA] @ exampleLater # [exampleB]"
  proof -
    have "\<not> isRemoved exampleA" "\<not> isRemoved exampleLater" "\<not> isRemoved exampleB"
      by code_simp+
    then show ?thesis by simp
  qed
  have rel: "relativePathOf ''/p'' (getFilePath exampleB) = ''src/lib/b.ts''"
    by code_simp
  have caller: "findContainingFunctionId (ancestors ?call) ''file:src/lib/b.ts'' (nodesMap ?s1) =
      Some ''file:src/lib/b.ts:fn:main''"
    by code_simp
  have name: "calledNameOf (fnRegistry ?s1) (callee ?call) = Some ''helper''"
    by (simp add: calledNameOf_def)
  have inB: "?call \<in> set (getCallExpressions exampleB)"
    by (simp add: exampleB_def)
  have skipped: "\<not> isSkipped (relativePathOf ''/p'' (getFilePath exampleB))"
    unfolding rel by code_simp
  note all = C6_registry_last_writer_wins [OF processed unqualified declared last, unfolded target]
  from all have first:
    "fnRegistry ?s1 ''helper'' = Some ''file:z.ts:fn:helper''"
    "registryTarget ?s1 ''helper'' ''file:src/lib/b.ts:fn:main'' = Some ''file:z.ts:fn:helper''"
    by simp_all
  from all have
    "fnRegistry ?s1 = fnRegistry ?s1 \<and> nodesMap ?s1 = nodesMap ?s1 \<and>
     calledNameOf (fnRegistry ?s1) (callee ?call) = Some ''helper'' \<and> ''helper'' \<noteq> [] \<and>
     findContainingFunctionId (ancestors ?call) ''file:src/lib/b.ts'' (nodesMap ?s1) =
       Some ''file:src/lib/b.ts:fn:main'' \<and>
     ''file:src/lib/b.ts:fn:main'' \<noteq> ''file:z.ts:fn:helper'' \<longrightarrow>
     traceCall ''/p'' ''file:src/lib/b.ts'' ?call ?s1 =
       withEdge ''file:src/lib/b.ts:fn:main'' ''file:z.ts:fn:helper'' Calls ?s1"
    by blast
  with name caller have second:
    "traceCall ''/p'' ''file:src/lib/b.ts'' ?call ?s1 =
       withEdge ''file:src/lib/b.ts:fn:main'' ''file:z.ts:fn:helper'' Calls ?s1"
    by simp
  from all have
    "filter (\<lambda>sf. \<not> isRemoved sf) [exampleA, exampleLater, exampleB] = [exampleA] @ exampleLater # [exampleB] \<and>
     exampleB \<in> set ([exampleA] @ exampleLater # [exampleB]) \<and>
     \<not> isSkipped (relativePathOf ''/p'' (getFilePath exampleB)) \<and>
     ?call \<in> set (getCallExpressions exampleB) \<and>
     calledNameOf (fnRegistry ?s1) (callee ?call) = Some ''helper'' \<and> ''helper'' \<noteq> [] \<and>
     findContainingFunctionId (ancestors ?call)
       (''file:'' @ relativePathOf ''/p'' (getFilePath exampleB)) (nodesMap ?s1) =
       Some ''file:src/lib/b.ts:fn:main'' \<and>
     ''file:src/lib/b.ts:fn:main'' \<noteq> ''file:z.ts:fn:helper'' \<longrightarrow>
     (\<exists>e \<in> set (edges (analyze ''/p'' [exampleA, exampleLater, exampleB])).
        relation e = Calls \<and>
        edgeKey (fromId e) (toId e) Calls =
          edgeKey ''file:src/lib/b.ts:fn:main'' ''file:z.ts:fn:helper'' Calls \<and>
        (CHR 0xE2 \<notin> set (fromId e) \<and> CHR 0xE2 \<notin> set ''file:src/lib/b.ts:fn:main'' \<longrightarrow>
           fromId e = ''file:src/lib/b.ts:fn:main'' \<and> toId e = ''file:z.ts:fn:helper''))"
    by blast
  moreover have "findContainingFunctionId (ancestors ?call)
       (''file:'' @ relativePathOf ''/p'' (getFilePath exampleB)) (nodesMap ?s1) =
       Some ''file:src/lib/b.ts:fn:main''"
    unfolding rel using caller by simp
  moreover have "exampleB \<in> set ([exampleA] @ exampleLater # [exampleB])"
    by simp
  moreover have "''file:src/lib/b.ts:fn:main'' \<noteq> ''file:z.ts:fn:helper''" "''helper'' \<noteq> []"
    by simp_all
  ultimately have third:
    "\<exists>e \<in> set (edges (analyze ''/p'' [exampleA, exampleLater, exampleB])).
        relation e = Calls \<and>
        edgeKey (fromId e) (toId e) Calls =
          edgeKey ''file:src/lib/b.ts:fn:main'' ''file:z.ts:fn:helper'' Calls"
    using kept skipped inB name by blast
  have graph:
    "\<lparr>fromId = ''file:src/lib/b.ts:fn:main'', toId = ''file:z.ts:fn:helper'', relation = Calls,
       callCount = Some 2\<rparr> \<in> set (edges (analyze ''/p'' [exampleA, exampleLater, exampleB]))"
    "\<lparr>fromId = ''file:a.ts:cls:Greeter:method:greet'', toId = ''file:z.ts:fn:helper'', relation = Calls,
       callCount = Some 1\<rparr> \<in> set (edges (analyze ''/p'' [exampleA, exampleLater, exampleB]))"
    by code_simp+
  from earlier first second third graph show ?thesis
    by (intro conjI)
qed

section \<open>Where call edges start\<close>




section \<open>No source files\<close>

lemma pass1_all_skipped:
  "\<forall>sf \<in> set sfs. isSkipped (relativePathOf root (getFilePath sf)) \<Longrightarrow> pass1 root sfs s = s"
  unfolding pass1_def by (induction sfs arbitrary: s) (simp_all add: pass1File_def)

lemma pass2_all_skipped:
  "\<forall>sf \<in> set sfs. isSkipped (relativePathOf root (getFilePath sf)) \<Longrightarrow> pass2 root sfs s = s"
  unfolding pass2_def by (induction sfs arbitrary: s) (simp_all add: pass2File_def)

text \<open>
  C9. When no project file survives (each is removed by the filter or skipped by
  both passes), the engine itself returns the empty graph, and the handler that
  invoked it ends the response with an error event carrying the message
  \<^const>\<open>noSourceMessage\<close>: it never reaches \<open>persist\<close>, and no \<open>done\<close> event is sent.
\<close>

theorem C9_no_source_is_a_failure:
  assumes "\<forall>sf \<in> set projectFiles. isRemoved sf \<or> isSkipped (relativePathOf root (getFilePath sf))"
  shows "analyze root projectFiles = \<lparr>nodes = [], edges = [], rootPath = root\<rparr> \<and>
         handleAnalysis root projectFiles engineProgress persist =
           Progress 35 ''Scanning source files...'' #
           map (\<lambda>p. case p of (pct, message) \<Rightarrow> Progress pct message) engineProgress @
           [Progress 75 ''Found 0 nodes and 0 edges. Saving to database...'', Error noSourceMessage] \<and>
         last (handleAnalysis root projectFiles engineProgress persist) = Error noSourceMessage \<and>
         (\<forall>g. Done g \<notin> set (handleAnalysis root projectFiles engineProgress persist))"
proof -
  have skipped: "\<forall>sf \<in> set (filter (\<lambda>sf. \<not> isRemoved sf) projectFiles).
      isSkipped (relativePathOf root (getFilePath sf))"
    using assms by auto
  have empty: "analyze root projectFiles = \<lparr>nodes = [], edges = [], rootPath = root\<rparr>"
    by (simp add: analyze_def pass1_all_skipped [OF skipped] pass2_all_skipped [OF skipped]
        assemble_def initialState_def)
  have zero: "showNat 0 = ''0''"
    by code_simp
  have events: "handleAnalysis root projectFiles engineProgress persist =
           Progress 35 ''Scanning source files...'' #
           map (\<lambda>p. case p of (pct, message) \<Rightarrow> Progress pct message) engineProgress @
           [Progress 75 ''Found 0 nodes and 0 edges. Saving to database...'', Error noSourceMessage]"
    by (simp add: empty handleAnalysis_def afterAnalysis_def zero)
  have "Done g \<notin> set (handleAnalysis root projectFiles engineProgress persist)" for g
    unfolding events by (auto split: prod.splits)
  with empty events show ?thesis
    by simp
qed

text \<open>A project whose only file is the vendored one, with a \<open>persist\<close> that would report success.\<close>

theorem C9_no_source_is_a_failure_witness:
  "handleAnalysis ''/p'' [exampleVendored] [] (\<lambda>g. [Done g]) =
     [Progress 35 ''Scanning source files...'',
      Progress 75 ''Found 0 nodes and 0 edges. Saving to database...'',
      Error noSourceMessage]"
proof -
  have none: "\<forall>sf \<in> set [exampleVendored].
      isRemoved sf \<or> isSkipped (relativePathOf ''/p'' (getFilePath sf))"
    by code_simp
  from C9_no_source_is_a_failure [OF none, of "[]" "\<lambda>g. [Done g]"]
  show ?thesis by simp
qed

section \<open>Counting call sites\<close>

text \<open>
  C2 says that the count of a call edge is the number of call sites observed
  between its ends. Tier 1 adds one observation per call expression. Tier 2 adds
  one per declaration of the resolved symbol: the loop over the declarations does
  not stop at the first candidate found. Here \<^verbatim>\<open>b.ts\<close> holds a single call
  expression, tier 1 misses (the registry entry of \<^verbatim>\<open>run\<close> is the caller itself), and
  the only call edge of the graph has the count 3.
\<close>

theorem C2_one_call_site_counted_thrice:
  "length (getCallExpressions exampleOverloads @ getCallExpressions exampleCaller) = 1 \<and>
   filter (\<lambda>e. relation e = Calls) (edges (analyze ''/p'' [exampleOverloads, exampleCaller])) =
     [\<lparr>fromId = ''file:b.ts:fn:run'', toId = ''file:a.ts:fn:run'', relation = Calls,
       callCount = Some 3\<rparr>]"
  by code_simp

end
